theory Spec2Isabelle
  imports Complex_Main "HOL-Library.Multiset" "HOL-Library.Char_ord" "HOL-Library.List_Lexorder"
begin

unbundle bit_operations_syntax

section \<open>Runtime values as the encoder sees them through reflection\<close>

text \<open>
  The encoder of \<^verbatim>\<open>codec/encode.go\<close> walks Go values through the \<^verbatim>\<open>reflect\<close>
  package. The model keeps what the encoder reads of a value: its kind, its type, whether
  it is addressable, whether it is nil, and its contents.
\<close>

datatype kind =
    KInvalid | KBool | KInt | KInt8 | KInt16 | KInt32 | KInt64
  | KUint | KUint8 | KUint16 | KUint32 | KUint64 | KUintptr
  | KFloat32 | KFloat64 | KComplex64 | KComplex128
  | KArray | KChan | KFunc | KInterface | KMap | KPtr | KSlice | KString | KStruct
  | KUnsafePointer

text \<open>
  Types are finite trees; a struct type is known by its name (its fields are in its
  \<^verbatim>\<open>typeInfo\<close>). The number in \<open>TChan\<close> is the channel direction
  (\<^verbatim>\<open>reflect.RecvDir = 1\<close>, \<^verbatim>\<open>SendDir = 2\<close>, \<^verbatim>\<open>BothDir = 3\<close>).
\<close>

datatype rtype =
    TBasic kind
  | TNamed string rtype
  | TPtr rtype
  | TInterface
  | TSlice rtype
  | TArray nat rtype
  | TMap rtype rtype
  | TChan nat rtype
  | TStruct string
  | TFunc

fun rtKind :: "rtype \<Rightarrow> kind" where
  "rtKind (TBasic k) = k"
| "rtKind (TNamed n t) = rtKind t"
| "rtKind (TPtr t) = KPtr"
| "rtKind TInterface = KInterface"
| "rtKind (TSlice t) = KSlice"
| "rtKind (TArray n t) = KArray"
| "rtKind (TMap k v) = KMap"
| "rtKind (TChan d t) = KChan"
| "rtKind (TStruct n) = KStruct"
| "rtKind TFunc = KFunc"

text \<open>\<^verbatim>\<open>rt.Elem()\<close>; the source calls it on pointer, slice, array, map and channel types only.\<close>

fun rtElem :: "rtype \<Rightarrow> rtype" where
  "rtElem (TNamed n t) = rtElem t"
| "rtElem (TPtr t) = t"
| "rtElem (TSlice t) = t"
| "rtElem (TArray n t) = t"
| "rtElem (TMap k v) = v"
| "rtElem (TChan d t) = t"
| "rtElem t = t"

definition uint8Typ :: rtype where "uint8Typ = TBasic KUint8"
definition uint8SliceTyp :: rtype where "uint8SliceTyp = TSlice (TBasic KUint8)"
definition stringTyp :: rtype where "stringTyp = TBasic KString"
definition timeTyp :: rtype where "timeTyp = TStruct ''time.Time''"
definition rawTyp :: rtype where "rawTyp = TNamed ''Raw'' (TSlice (TBasic KUint8))"
definition reflectValueTyp :: rtype where "reflectValueTyp = TStruct ''reflect.Value''"

text \<open>
  A \<^verbatim>\<open>reflect.Value\<close>: the zero Value (\<open>RVInvalid\<close>), or a type, the
  \<^verbatim>\<open>CanAddr\<close> flag and the contents. \<open>DNil\<close> is the nil pointer, interface, slice,
  map, channel or function. A pointer is an address of the memory (\<open>DPtr\<close>) or the
  address taken of a value (\<open>DAddr\<close>, what \<^verbatim>\<open>rv.Addr()\<close> returns). A map is the list of
  its entries in iteration order. A channel is what can be received from it now, and
  whether it is closed. Floating-point numbers are rationals: NaN and the infinities are
  outside the model.
\<close>

datatype rvalue =
    RVInvalid
  | RV rtype bool rdata
and rdata =
    DNil
  | DBool bool
  | DInt int
  | DUint nat
  | DFloat rat
  | DString string
  | DTime int
  | DPtr nat
  | DAddr rvalue
  | DIface rvalue
  | DSeq "rvalue list"
  | DStruct "rvalue list"
  | DMap "(rvalue \<times> rvalue) list"
  | DChan "rvalue list" bool
  | DFunc
  | DReflect rvalue
  | DOpaque

text \<open>An \<^verbatim>\<open>interface{}\<close> holding a value: its dynamic type and its contents.\<close>

type_synonym iface = "rtype \<times> rdata"

text \<open>The argument of \<^verbatim>\<open>encode(iv interface{})\<close>: \<open>None\<close> is the nil interface.\<close>

type_synonym ival = "iface option"

fun rvKind :: "rvalue \<Rightarrow> kind" where
  "rvKind RVInvalid = KInvalid"
| "rvKind (RV t a d) = rtKind t"

fun rvType :: "rvalue \<Rightarrow> rtype" where
  "rvType RVInvalid = TBasic KInvalid"
| "rvType (RV t a d) = t"

fun rvData :: "rvalue \<Rightarrow> rdata" where
  "rvData RVInvalid = DNil"
| "rvData (RV t a d) = d"

fun rvCanAddr :: "rvalue \<Rightarrow> bool" where
  "rvCanAddr RVInvalid = False"
| "rvCanAddr (RV t a d) = a"

definition rvIsNil :: "rvalue \<Rightarrow> bool" where
  "rvIsNil rv = (rvData rv = DNil)"

definition rv2i :: "rvalue \<Rightarrow> iface" where
  "rv2i rv = (rvType rv, rvData rv)"

text \<open>\<^verbatim>\<open>reflect.ValueOf(iv)\<close> for a non-nil interface: the value is not addressable.\<close>

definition valueOf :: "iface \<Rightarrow> rvalue" where
  "valueOf i = RV (fst i) False (snd i)"

text \<open>\<^verbatim>\<open>rv.Addr()\<close>: a pointer to the value.\<close>

definition rvAddr :: "rvalue \<Rightarrow> rvalue" where
  "rvAddr rv = RV (TPtr (rvType rv)) False (DAddr rv)"

text \<open>
  \<^verbatim>\<open>rv.Elem()\<close> of a pointer or an interface; \<open>mem\<close> is the memory the pointers
  point into. The source calls it on non-nil pointers and interfaces only.
\<close>

fun rvElem :: "(nat \<Rightarrow> rvalue) \<Rightarrow> rvalue \<Rightarrow> rvalue" where
  "rvElem mem (RV t a (DPtr p)) = mem p"
| "rvElem mem (RV t a (DAddr v)) = v"
| "rvElem mem (RV t a (DIface v)) = v"
| "rvElem mem rv = RVInvalid"

text \<open>The elements of a slice or an array; a nil slice has none.\<close>

fun rvElems :: "rvalue \<Rightarrow> rvalue list" where
  "rvElems (RV t a (DSeq xs)) = xs"
| "rvElems rv = []"

definition rvLenSlice :: "rvalue \<Rightarrow> nat" where
  "rvLenSlice rv = length (rvElems rv)"

definition rvLen :: "rvalue \<Rightarrow> nat" where
  "rvLen rv = length (rvElems rv)"

text \<open>Indexing; the loops of the source keep \<open>j\<close> below the length, where Go would panic.\<close>

definition rvSliceIndex :: "rvalue \<Rightarrow> nat \<Rightarrow> rvalue" where
  "rvSliceIndex rv j = (if j < length (rvElems rv) then rvElems rv ! j else RVInvalid)"

definition rvIndex :: "rvalue \<Rightarrow> nat \<Rightarrow> rvalue" where
  "rvIndex rv j = (if j < length (rvElems rv) then rvElems rv ! j else RVInvalid)"

fun rvGetBool :: "rvalue \<Rightarrow> bool" where
  "rvGetBool (RV t a (DBool b)) = b"
| "rvGetBool rv = False"

fun rvGetInt :: "rvalue \<Rightarrow> int" where
  "rvGetInt (RV t a (DInt i)) = i"
| "rvGetInt rv = 0"

fun rvGetUint :: "rvalue \<Rightarrow> nat" where
  "rvGetUint (RV t a (DUint i)) = i"
| "rvGetUint rv = 0"

fun rvGetFloat :: "rvalue \<Rightarrow> rat" where
  "rvGetFloat (RV t a (DFloat x)) = x"
| "rvGetFloat rv = 0"

fun rvGetString :: "rvalue \<Rightarrow> string" where
  "rvGetString (RV t a (DString s)) = s"
| "rvGetString rv = []"

fun rvGetTime :: "rvalue \<Rightarrow> int" where
  "rvGetTime (RV t a (DTime x)) = x"
| "rvGetTime rv = 0"

text \<open>\<^verbatim>\<open>rvGetBytes\<close>: the bytes of a byte slice, \<open>None\<close> for the nil slice.\<close>

fun rvGetBytes :: "rvalue \<Rightarrow> nat list option" where
  "rvGetBytes (RV t a (DSeq xs)) = Some (map rvGetUint xs)"
| "rvGetBytes rv = None"

text \<open>The entries of a map in iteration order; \<^verbatim>\<open>rv.MapKeys()\<close>; \<^verbatim>\<open>mapGet\<close>.\<close>

fun rvMapEntries :: "rvalue \<Rightarrow> (rvalue \<times> rvalue) list" where
  "rvMapEntries (RV t a (DMap m)) = m"
| "rvMapEntries rv = []"

definition rvLenMap :: "rvalue \<Rightarrow> nat" where
  "rvLenMap rv = length (rvMapEntries rv)"

definition rvMapKeys :: "rvalue \<Rightarrow> rvalue list" where
  "rvMapKeys rv = map fst (rvMapEntries rv)"

definition mapGet :: "rvalue \<Rightarrow> rvalue \<Rightarrow> rvalue" where
  "mapGet rv k = (case map_of (rvMapEntries rv) k of Some v \<Rightarrow> v | None \<Rightarrow> RVInvalid)"

text \<open>The values of the fields of a struct.\<close>

fun rvFields :: "rvalue \<Rightarrow> rvalue list" where
  "rvFields (RV t a (DStruct fs)) = fs"
| "rvFields rv = []"

text \<open>\<^verbatim>\<open>reflect.ValueOf(v)\<close> of an \<^verbatim>\<open>interface{}\<close>: the zero Value for the nil interface.\<close>

fun valueOfIval :: "ival \<Rightarrow> rvalue" where
  "valueOfIval None = RVInvalid"
| "valueOfIval (Some i) = valueOf i"

text \<open>\<^verbatim>\<open>rvAddressableReadonly(rv)\<close>: an addressable copy of the value.\<close>

fun rvAddressableReadonly :: "rvalue \<Rightarrow> rvalue" where
  "rvAddressableReadonly RVInvalid = RVInvalid"
| "rvAddressableReadonly (RV t a d) = RV t True d"

text \<open>\<^verbatim>\<open>eq4i\<close>: two interfaces are equal when their dynamic types and values are.\<close>

definition eq4i :: "iface \<Rightarrow> iface \<Rightarrow> bool" where
  "eq4i i1 i2 = (i1 = i2)"

section \<open>The driver, the handle and the encoder\<close>

text \<open>
  The wire format is not part of the engine: what the encoder produces is the sequence of
  calls it makes on its driver (\<^verbatim>\<open>encDriver\<close>, \<^verbatim>\<open>encDriverContainerTracker\<close>) and on
  its writer (\<^verbatim>\<open>writeb\<close>, \<^verbatim>\<open>writeqstr\<close>, \<^verbatim>\<open>end\<close>).
\<close>

datatype op =
    EncodeNil
  | EncodeInt int
  | EncodeUint nat
  | EncodeBool bool
  | EncodeFloat32 rat
  | EncodeFloat64 rat
  | EncodeRawExt iface
  | EncodeExt iface nat
  | EncodeString string
  | EncodeStringBytesRaw "nat list option"
  | EncodeTime int
  | WriteArrayStart nat
  | WriteArrayEnd
  | WriteMapStart nat
  | WriteMapEnd
  | WriteArrayElem
  | WriteMapElemKey
  | WriteMapElemValue
  | AtEndOfEncode
  | Writeb "nat list"
  | Writeqstr string
  | WriterEnd

text \<open>
  The failures of section 7 of the specification, with what the message reports;
  \<open>RuntimePanic\<close> is a panic of the Go runtime itself (an index out of range, a nil
  dereference, a failed type assertion).
\<close>

datatype error =
    UninitializedEncoder
  | NoFormatHandle
  | UnsupportedValue kind
  | CircularReference iface
  | MalformedFlattenedSequence nat
  | RawDisallowed
  | SendOnlyChannel
  | CustomMarshalFailure string
  | InvalidKeyEncoding string
  | InvalidStructKeyType
  | RuntimePanic string

datatype valueType = valueTypeString | valueTypeInt | valueTypeUint | valueTypeFloat | valueTypeOther

datatype containerState =
    containerNone | containerMapStart | containerMapKey | containerMapValue | containerMapEnd
  | containerArrayStart | containerArrayElem | containerArrayEnd

text \<open>
  \<^verbatim>\<open>structFieldInfo\<close>: the encoded name, the flags of its path, and the position of the
  field among the values of the struct (\<^verbatim>\<open>si.path.field(rv)\<close>).
\<close>

record structFieldInfo =
  encName :: string
  omitEmpty :: bool
  encNameAsciiAlphaNum :: bool
  fieldIndex :: nat

record typeInfo =
  rtid :: rtype
  elem :: rtype
  key :: rtype
  mbs :: bool
  chandir :: nat
  toArray :: bool
  keyType :: valueType
  sfiSrc :: "structFieldInfo list"
  sfiSort :: "structFieldInfo list"
  flagMissingFielder :: bool
  flagMissingFielderPtr :: bool
  infoFieldOmitempty :: bool

text \<open>The functions an encoding strategy (\<^verbatim>\<open>codecFn.fe\<close>) can be bound to.\<close>

datatype feFunc =
    Fe_rawExt | Fe_ext | Fe_selferMarshal | Fe_binaryMarshal | Fe_textMarshal | Fe_jsonMarshal
  | Fe_raw | Fe_kBool | Fe_kTime | Fe_kString | Fe_kFloat64 | Fe_kFloat32
  | Fe_kInt | Fe_kInt8 | Fe_kInt16 | Fe_kInt32 | Fe_kInt64
  | Fe_kUint | Fe_kUint8 | Fe_kUint16 | Fe_kUint32 | Fe_kUint64 | Fe_kUintptr
  | Fe_kErr | Fe_kChan | Fe_kSlice | Fe_kArray | Fe_kStruct | Fe_kStructNoOmitempty | Fe_kMap

record codecFn =
  fe :: feFunc
  ti :: typeInfo
  xfTag :: nat
  addrE :: bool
  addrEf :: bool

text \<open>
  \<^verbatim>\<open>BasicHandle\<close>: the options the engine reads, and the two lookups of the type
  registry (\<^verbatim>\<open>e.h.fn\<close>, \<^verbatim>\<open>e.h.getTypeInfo\<close>), which are not part of this file and are
  taken as given.
\<close>

record BasicHandle =
  ChanRecvTimeout :: int
  StructToArray :: bool
  Canonical :: bool
  CheckCircularRef :: bool
  RecursiveEmptyCheck :: bool
  Raw :: bool
  fn :: "rtype \<Rightarrow> codecFn"
  getTypeInfo :: "rtype \<Rightarrow> typeInfo"

text \<open>
  What lies outside the engine and is taken as given: the memory that pointers point into,
  the methods of user types (\<^verbatim>\<open>CodecMissingFields\<close>, \<^verbatim>\<open>CodecEncodeSelf\<close>, the
  marshalers, each with the error it returns), the emptiness test \<^verbatim>\<open>isEmptyValue\<close> of
  the helpers, the bytes the driver has written for a sequence of calls, and
  \<^verbatim>\<open>strconv\<close>'s parsers. A \<^verbatim>\<open>CodecEncodeSelf\<close> method is the list of the encode calls
  it makes on the encoder it is given.
\<close>

datatype selfCall = CallMustEncode ival | CallEncode ival

record Runtime =
  mem :: "nat \<Rightarrow> rvalue"
  isEmptyValue :: "rvalue \<Rightarrow> bool \<Rightarrow> bool"
  CodecMissingFields :: "iface \<Rightarrow> (string \<times> ival) list"
  CodecEncodeSelf :: "iface \<Rightarrow> selfCall list"
  MarshalBinary :: "iface \<Rightarrow> nat list option \<times> string option"
  MarshalText :: "iface \<Rightarrow> string option \<times> string option"
  MarshalJSON :: "iface \<Rightarrow> nat list option \<times> string option"
  driverBytes :: "op list \<Rightarrow> nat list"
  ParseInt :: "string \<Rightarrow> int option"
  ParseUint :: "string \<Rightarrow> nat option"
  ParseFloat :: "string \<Rightarrow> rat option"

text \<open>
  The \<^verbatim>\<open>Encoder\<close>. \<open>trace\<close> is the sequence of calls made so far on the driver
  \<^verbatim>\<open>e.e\<close> and on the writer \<^verbatim>\<open>e.encWr\<close>; \<open>hhSet\<close> says that \<^verbatim>\<open>e.hh\<close> is not nil.
\<close>

record Encoder =
  trace :: "op list"
  h :: BasicHandle
  hhSet :: bool
  js :: bool
  c :: containerState
  calls :: int
  err :: "error option"
  ci :: "iface list"

text \<open>
  An encoder method returns normally (\<open>Ok\<close>) or panics (\<open>Panic\<close>): both carry the encoder
  as it is at that moment, since what was written before a failure is not retracted.
  \<open>None\<close> is a run that does not return.
\<close>

datatype outcome = Ok Encoder | Panic error Encoder

type_synonym result = "outcome option"

fun andThen :: "result \<Rightarrow> (Encoder \<Rightarrow> result) \<Rightarrow> result" where
  "andThen None f = None"
| "andThen (Some (Ok e)) f = f e"
| "andThen (Some (Panic x e)) f = Some (Panic x e)"

definition ok :: "Encoder \<Rightarrow> result" where
  "ok e = Some (Ok e)"

text \<open>\<^verbatim>\<open>e.errorf(...)\<close> panics.\<close>

definition errorf :: "error \<Rightarrow> Encoder \<Rightarrow> result" where
  "errorf x e = Some (Panic x e)"

text \<open>A \<^verbatim>\<open>for\<close> loop over a list: the body runs on each element until one panics.\<close>

fun forEach :: "('a \<Rightarrow> Encoder \<Rightarrow> result) \<Rightarrow> 'a list \<Rightarrow> Encoder \<Rightarrow> result" where
  "forEach body [] e = ok e"
| "forEach body (x # xs) e = andThen (body x e) (forEach body xs)"

definition emit :: "op \<Rightarrow> Encoder \<Rightarrow> Encoder" where
  "emit x e = e\<lparr>trace := trace e @ [x]\<rparr>"

subsection \<open>Container tracker methods\<close>

definition mapStart :: "nat \<Rightarrow> Encoder \<Rightarrow> Encoder" where
  "mapStart l e = (emit (WriteMapStart l) e)\<lparr>c := containerMapStart\<rparr>"

definition mapElemKey :: "Encoder \<Rightarrow> Encoder" where
  "mapElemKey e = (if js e then emit WriteMapElemKey e else e)\<lparr>c := containerMapKey\<rparr>"

definition mapElemValue :: "Encoder \<Rightarrow> Encoder" where
  "mapElemValue e = (if js e then emit WriteMapElemValue e else e)\<lparr>c := containerMapValue\<rparr>"

definition mapEnd :: "Encoder \<Rightarrow> Encoder" where
  "mapEnd e = (emit WriteMapEnd e)\<lparr>c := containerNone\<rparr>"

definition arrayStart :: "nat \<Rightarrow> Encoder \<Rightarrow> Encoder" where
  "arrayStart l e = (emit (WriteArrayStart l) e)\<lparr>c := containerArrayStart\<rparr>"

definition arrayElem :: "Encoder \<Rightarrow> Encoder" where
  "arrayElem e = (if js e then emit WriteArrayElem e else e)\<lparr>c := containerArrayElem\<rparr>"

definition arrayEnd :: "Encoder \<Rightarrow> Encoder" where
  "arrayEnd e = (emit WriteArrayEnd e)\<lparr>c := containerNone\<rparr>"

definition haltOnMbsOddLen :: "nat \<Rightarrow> Encoder \<Rightarrow> result" where
  "haltOnMbsOddLen l e =
     (if l AND 1 \<noteq> 0 then errorf (MalformedFlattenedSequence l) e else ok e)"

section \<open>Sequences\<close>

text \<open>
  The handlers call back into \<^verbatim>\<open>encodeValue\<close> (and \<^verbatim>\<open>encode\<close>, \<^verbatim>\<open>MustEncode\<close>); they
  take the method they call as their first arguments, and the recursion is closed where
  \<open>encodeValue\<close> is defined.
\<close>

type_synonym encodeValueT = "rvalue \<Rightarrow> codecFn option \<Rightarrow> Encoder \<Rightarrow> result"
type_synonym encodeT = "ival \<Rightarrow> Encoder \<Rightarrow> result"

text \<open>The loop of \<^verbatim>\<open>kSeqFn\<close> (and of \<^verbatim>\<open>kMap\<close>) that strips pointer types.\<close>

fun ptrBase :: "rtype \<Rightarrow> rtype" where
  "ptrBase (TPtr t) = ptrBase t"
| "ptrBase (TNamed n t) = (if rtKind t = KPtr then ptrBase t else TNamed n t)"
| "ptrBase t = t"

definition kSeqFn :: "BasicHandle \<Rightarrow> rtype \<Rightarrow> codecFn option" where
  "kSeqFn bh rtelem =
     (let rtelem = ptrBase rtelem in
      if rtKind rtelem \<noteq> KInterface then Some (fn bh rtelem) else None)"

definition kSliceWMbs :: "encodeValueT \<Rightarrow> rvalue \<Rightarrow> typeInfo \<Rightarrow> Encoder \<Rightarrow> result" where
  "kSliceWMbs encodeValue rv tinfo e =
     (let l = rvLenSlice rv in
      andThen
        (if l = 0 then ok (mapStart 0 e)
         else andThen (haltOnMbsOddLen l e) (\<lambda>e.
           let e = mapStart (drop_bit 1 l) e;
               fn' = kSeqFn (h e) (elem tinfo)
           in forEach (\<lambda>j e.
                 encodeValue (rvSliceIndex rv j) fn'
                   (if j AND 1 = 0 then mapElemKey e else mapElemValue e))
               [0..<l] e))
        (\<lambda>e. ok (mapEnd e)))"

definition kSliceW :: "encodeValueT \<Rightarrow> rvalue \<Rightarrow> typeInfo \<Rightarrow> Encoder \<Rightarrow> result" where
  "kSliceW encodeValue rv tinfo e =
     (let l = rvLenSlice rv;
          e = arrayStart l e
      in andThen
        (if l > 0 then
           let fn' = kSeqFn (h e) (elem tinfo)
           in forEach (\<lambda>j e. encodeValue (rvSliceIndex rv j) fn' (arrayElem e)) [0..<l] e
         else ok e)
        (\<lambda>e. ok (arrayEnd e)))"

definition kArrayWMbs :: "encodeValueT \<Rightarrow> rvalue \<Rightarrow> typeInfo \<Rightarrow> Encoder \<Rightarrow> result" where
  "kArrayWMbs encodeValue rv tinfo e =
     (let l = rvLen rv in
      andThen
        (if l = 0 then ok (mapStart 0 e)
         else andThen (haltOnMbsOddLen l e) (\<lambda>e.
           let e = mapStart (drop_bit 1 l) e;
               fn' = kSeqFn (h e) (elem tinfo)
           in forEach (\<lambda>j e.
                 encodeValue (rvIndex rv j) fn'
                   (if j AND 1 = 0 then mapElemKey e else mapElemValue e))
               [0..<l] e))
        (\<lambda>e. ok (mapEnd e)))"

definition kArrayW :: "encodeValueT \<Rightarrow> rvalue \<Rightarrow> typeInfo \<Rightarrow> Encoder \<Rightarrow> result" where
  "kArrayW encodeValue rv tinfo e =
     (let l = rvLen rv;
          e = arrayStart l e
      in andThen
        (if l > 0 then
           let fn' = kSeqFn (h e) (elem tinfo)
           in forEach (\<lambda>j e. encodeValue (rvIndex rv j) fn' (arrayElem e)) [0..<l] e
         else ok e)
        (\<lambda>e. ok (arrayEnd e)))"

section \<open>Channels\<close>

text \<open>
  Draining a channel. Nobody sends while the encoder drains: what is received is what the
  channel holds. With a negative timeout the loop ends when the channel is closed, and
  never if it is not (\<open>None\<close>); otherwise it ends when nothing is left, by the default case
  or by the timer. The result of \<^verbatim>\<open>chanToSlice\<close> starts as the zero slice (nil), and
  \<^verbatim>\<open>reflect.Append\<close> makes it non-nil.
\<close>

fun chanItems :: "rvalue \<Rightarrow> rvalue list" where
  "chanItems (RV t a (DChan xs cl)) = xs"
| "chanItems rv = []"

fun chanClosed :: "rvalue \<Rightarrow> bool" where
  "chanClosed (RV t a (DChan xs cl)) = cl"
| "chanClosed rv = False"

definition chanToSlice :: "rvalue \<Rightarrow> rtype \<Rightarrow> int \<Rightarrow> rvalue option" where
  "chanToSlice rv rtslice timeout =
     (let rvcs = (if chanItems rv = [] then RV rtslice True DNil
                  else RV rtslice True (DSeq (chanItems rv)))
      in if timeout < 0 then (if chanClosed rv then Some rvcs else None)
         else Some rvcs)"

definition kSliceBytesChan :: "rvalue \<Rightarrow> Encoder \<Rightarrow> result" where
  "kSliceBytesChan rv e =
     (if rvType rv \<noteq> TChan 1 (TBasic KUint8) \<and> rvType rv \<noteq> TChan 3 (TBasic KUint8)
      then errorf (RuntimePanic ''interface conversion'') e
      else
        let timeout = ChanRecvTimeout (h e);
            bs = map rvGetUint (chanItems rv)
        in if timeout = 0 then ok (emit (EncodeStringBytesRaw (Some bs)) e)
           else if timeout > 0 then ok (emit (EncodeStringBytesRaw (Some bs)) e)
           else if chanClosed rv then ok (emit (EncodeStringBytesRaw (Some bs)) e)
           else None)"

definition kChan :: "encodeValueT \<Rightarrow> codecFn \<Rightarrow> rvalue \<Rightarrow> Encoder \<Rightarrow> result" where
  "kChan encodeValue f rv e =
     (if chandir (ti f) AND 1 = 0 then errorf SendOnlyChannel e
      else if \<not> mbs (ti f) \<and> uint8Typ = elem (ti f) then kSliceBytesChan rv e
      else
        let rtslice = TSlice (elem (ti f)) in
        case chanToSlice rv rtslice (ChanRecvTimeout (h e)) of
          None \<Rightarrow> None
        | Some rv \<Rightarrow>
            let tinfo = getTypeInfo (h e) rtslice in
            if mbs (ti f) then kSliceWMbs encodeValue rv tinfo e
            else kSliceW encodeValue rv tinfo e)"

definition kSlice :: "encodeValueT \<Rightarrow> codecFn \<Rightarrow> rvalue \<Rightarrow> Encoder \<Rightarrow> result" where
  "kSlice encodeValue f rv e =
     (if mbs (ti f) then kSliceWMbs encodeValue rv (ti f) e
      else if rtid (ti f) = uint8SliceTyp \<or> uint8Typ = elem (ti f)
        then ok (emit (EncodeStringBytesRaw (rvGetBytes rv)) e)
      else kSliceW encodeValue rv (ti f) e)"

text \<open>\<^verbatim>\<open>rvGetArrayBytesRO\<close> copies the array into a byte slice, which is never nil.\<close>

definition kArray :: "encodeValueT \<Rightarrow> codecFn \<Rightarrow> rvalue \<Rightarrow> Encoder \<Rightarrow> result" where
  "kArray encodeValue f rv e =
     (if mbs (ti f) then kArrayWMbs encodeValue rv (ti f) e
      else if uint8Typ = elem (ti f)
        then ok (emit (EncodeStringBytesRaw (Some (map rvGetUint (rvElems rv)))) e)
      else kArrayW encodeValue rv (ti f) e)"

section \<open>Structs\<close>

text \<open>\<^verbatim>\<open>si.path.field(rv)\<close>: the value of the field, the zero Value when it cannot be reached.\<close>

definition field :: "structFieldInfo \<Rightarrow> rvalue \<Rightarrow> rvalue" where
  "field si rv =
     (if fieldIndex si < length (rvFields rv) then rvFields rv ! fieldIndex si else RVInvalid)"

definition kStructSfi :: "Encoder \<Rightarrow> codecFn \<Rightarrow> structFieldInfo list" where
  "kStructSfi e f = (if Canonical (h e) then sfiSort (ti f) else sfiSrc (ti f))"

definition encStructFieldKey ::
  "Runtime \<Rightarrow> string \<Rightarrow> valueType \<Rightarrow> bool \<Rightarrow> Encoder \<Rightarrow> result" where
  "encStructFieldKey R name kt asciiAlphaNum e =
     (if kt = valueTypeString then
        (if js e \<and> asciiAlphaNum then ok (emit (Writeqstr name) e)
         else ok (emit (EncodeString name) e))
      else if kt = valueTypeInt then
        (case ParseInt R name of
           None \<Rightarrow> errorf (InvalidKeyEncoding name) e
         | Some i \<Rightarrow> ok (emit (EncodeInt i) e))
      else if kt = valueTypeUint then
        (case ParseUint R name of
           None \<Rightarrow> errorf (InvalidKeyEncoding name) e
         | Some i \<Rightarrow> ok (emit (EncodeUint i) e))
      else if kt = valueTypeFloat then
        (case ParseFloat R name of
           None \<Rightarrow> errorf (InvalidKeyEncoding name) e
         | Some x \<Rightarrow> ok (emit (EncodeFloat64 x) e))
      else errorf InvalidStructKeyType e)"

definition kStructFieldKey ::
  "Runtime \<Rightarrow> valueType \<Rightarrow> bool \<Rightarrow> string \<Rightarrow> Encoder \<Rightarrow> result" where
  "kStructFieldKey R kt asciiAlphaNum name e = encStructFieldKey R name kt asciiAlphaNum e"

definition kStructNoOmitempty ::
  "encodeValueT \<Rightarrow> Runtime \<Rightarrow> codecFn \<Rightarrow> rvalue \<Rightarrow> Encoder \<Rightarrow> result" where
  "kStructNoOmitempty encodeValue R f rv e =
     (if toArray (ti f) \<or> StructToArray (h e) then
        andThen
          (forEach (\<lambda>si e. encodeValue (field si rv) None (arrayElem e)) (sfiSrc (ti f))
             (arrayStart (length (sfiSrc (ti f))) e))
          (\<lambda>e. ok (arrayEnd e))
      else
        let tisfi = kStructSfi e f in
        andThen
          (forEach (\<lambda>si e.
              andThen (kStructFieldKey R (keyType (ti f)) (encNameAsciiAlphaNum si) (encName si)
                         (mapElemKey e))
                (\<lambda>e. encodeValue (field si rv) None (mapElemValue e)))
             tisfi (mapStart (length tisfi) e))
          (\<lambda>e. ok (mapEnd e)))"

text \<open>
  The scratch records \<^verbatim>\<open>sfiRv\<close> of \<^verbatim>\<open>kStruct\<close>, with their fields \<^verbatim>\<open>v\<close> and
  \<^verbatim>\<open>r\<close>: \<open>kv_v\<close> is a pointer to the field's description, nil in a fresh record.
\<close>

record sfiRv =
  kv_v :: "structFieldInfo option"
  kv_r :: rvalue

definition sfiRv0 :: sfiRv where
  "sfiRv0 = \<lparr>kv_v = None, kv_r = RVInvalid\<rparr>"

text \<open>The record the first loop stores for a field it retains.\<close>

definition filled :: "rvalue \<Rightarrow> structFieldInfo \<Rightarrow> sfiRv" where
  "filled rv si = \<lparr>kv_v = Some si, kv_r = field si rv\<rparr>"

text \<open>
  The first loop of the map branch of \<^verbatim>\<open>kStruct\<close>: the state is the variable \<open>kv\<close>, the
  scratch slice \<open>fkvs\<close> and \<open>newlen\<close>; \<open>None\<close> is the panic of a store outside the slice.
\<close>

fun kStruct_fill ::
  "Runtime \<Rightarrow> bool \<Rightarrow> rvalue \<Rightarrow> structFieldInfo list \<Rightarrow> sfiRv \<times> sfiRv list \<times> nat
     \<Rightarrow> (sfiRv \<times> sfiRv list \<times> nat) option" where
  "kStruct_fill R recur rv [] st = Some st"
| "kStruct_fill R recur rv (si # sis) (kv, fkvs, newlen) =
     (let kv = kv\<lparr>kv_r := field si rv\<rparr> in
      if omitEmpty si \<and> isEmptyValue R (kv_r kv) recur
      then kStruct_fill R recur rv sis (kv, fkvs, newlen)
      else
        let kv = kv\<lparr>kv_v := Some si\<rparr> in
        if newlen < length fkvs
        then kStruct_fill R recur rv sis (kv, fkvs[newlen := kv], newlen + 1)
        else None)"

text \<open>The loop of the array branch: field \<open>i\<close> is stored at position \<open>i\<close>.\<close>

definition nilKinds :: "kind set" where
  "nilKinds = {KStruct, KInterface, KPtr, KArray, KMap, KSlice}"

fun kStruct_fillArray ::
  "Runtime \<Rightarrow> bool \<Rightarrow> rvalue \<Rightarrow> (nat \<times> structFieldInfo) list \<Rightarrow> sfiRv \<times> sfiRv list
     \<Rightarrow> (sfiRv \<times> sfiRv list) option" where
  "kStruct_fillArray R recur rv [] st = Some st"
| "kStruct_fillArray R recur rv ((i, si) # sis) (kv, fkvs) =
     (let kv = kv\<lparr>kv_r := field si rv\<rparr>;
          kv = (if omitEmpty si \<and> isEmptyValue R (kv_r kv) recur
                then (if rvKind (kv_r kv) \<in> nilKinds then kv\<lparr>kv_r := RVInvalid\<rparr> else kv)
                else kv)
      in if i < length fkvs
         then kStruct_fillArray R recur rv sis (kv, fkvs[i := kv])
         else None)"

text \<open>
  The missing fields \<open>mf\<close> of \<^verbatim>\<open>kStruct\<close>: what the method of the value, or of a pointer
  to it, returns, in the order the map is iterated; empty when the type has no such method.
\<close>

definition kStruct_mf :: "Runtime \<Rightarrow> codecFn \<Rightarrow> rvalue \<Rightarrow> (string \<times> ival) list" where
  "kStruct_mf R f rv =
     (if flagMissingFielder (ti f) then CodecMissingFields R (rv2i rv)
      else if flagMissingFielderPtr (ti f) then
        (if rvCanAddr rv then CodecMissingFields R (rv2i (rvAddr rv))
         else CodecMissingFields R (rv2i (rvAddr (rvAddressableReadonly rv))))
      else [])"

definition kStruct ::
  "encodeValueT \<Rightarrow> encodeT \<Rightarrow> Runtime \<Rightarrow> codecFn \<Rightarrow> rvalue \<Rightarrow> Encoder \<Rightarrow> result" where
  "kStruct encodeValue encode R f rv e =
     (let toMap = \<not> (toArray (ti f) \<or> StructToArray (h e));
          mf = kStruct_mf R f rv;
          toMap = (toMap \<or> flagMissingFielder (ti f) \<or> flagMissingFielderPtr (ti f));
          newlen = length mf + length (sfiSrc (ti f));
          fkvs = replicate newlen sfiRv0;
          recur = RecursiveEmptyCheck (h e)
      in
      if toMap then
        (case kStruct_fill R recur rv (kStructSfi e f) (sfiRv0, fkvs, 0) of
           None \<Rightarrow> errorf (RuntimePanic ''index out of range'') e
         | Some (kv, fkvs, newlen) \<Rightarrow>
             let mf = filter (\<lambda>(k, v). \<not> (k = [] \<or>
                         (infoFieldOmitempty (ti f) \<and> isEmptyValue R (valueOfIval v) recur))) mf;
                 mflen = length mf
             in
             andThen
               (forEach (\<lambda>j e.
                   let kv = fkvs ! j in
                   case kv_v kv of
                     None \<Rightarrow> errorf (RuntimePanic ''nil pointer dereference'') (mapElemKey e)
                   | Some si \<Rightarrow>
                       andThen (kStructFieldKey R (keyType (ti f)) (encNameAsciiAlphaNum si)
                                  (encName si) (mapElemKey e))
                         (\<lambda>e. encodeValue (kv_r kv) None (mapElemValue e)))
                  [0..<newlen] (mapStart (newlen + mflen) e))
               (\<lambda>e. andThen
                  (forEach (\<lambda>(k, v) e.
                      andThen (kStructFieldKey R (keyType (ti f)) False k (mapElemKey e))
                        (\<lambda>e. encode v (mapElemValue e)))
                     mf e)
                  (\<lambda>e. ok (mapEnd e))))
      else
        (let newlen = length (sfiSrc (ti f)) in
         case kStruct_fillArray R recur rv (zip [0..<newlen] (sfiSrc (ti f))) (sfiRv0, fkvs) of
           None \<Rightarrow> errorf (RuntimePanic ''index out of range'') e
         | Some (kv, fkvs) \<Rightarrow>
             andThen
               (forEach (\<lambda>j e. encodeValue (kv_r (fkvs ! j)) None (arrayElem e))
                  [0..<newlen] (arrayStart newlen e))
               (\<lambda>e. ok (arrayEnd e))))"

text \<open>
  The pairs a map-by-slice sequence stands for, in the words of the specification:
  element \<open>2i\<close> is the key and element \<open>2i+1\<close> the value of pair \<open>i\<close>.
\<close>

fun mbsPairs :: "'a list \<Rightarrow> ('a \<times> 'a) list" where
  "mbsPairs (k # v # xs) = (k, v) # mbsPairs xs"
| "mbsPairs xs = []"

text \<open>What encoding the pairs as successive key/value entries means.\<close>

definition encodePairs ::
  "encodeValueT \<Rightarrow> codecFn option \<Rightarrow> (rvalue \<times> rvalue) list \<Rightarrow> Encoder \<Rightarrow> result" where
  "encodePairs encodeValue fn' ps e =
     forEach (\<lambda>(k, v) e.
        andThen (encodeValue k fn' (mapElemKey e)) (\<lambda>e. encodeValue v fn' (mapElemValue e)))
       ps e"

text \<open>
  A value whose active representation is nil, in the words of section 4.1: a nil pointer,
  interface, slice, map or channel, reached directly or through at most \<open>d\<close> pointers and
  interfaces that are not nil.
\<close>

fun resolvesToNil :: "nat \<Rightarrow> Runtime \<Rightarrow> rvalue \<Rightarrow> bool" where
  "resolvesToNil 0 R rv = (rvKind rv \<in> {KPtr, KInterface, KSlice, KMap, KChan} \<and> rvIsNil rv)"
| "resolvesToNil (Suc d) R rv =
     ((rvKind rv \<in> {KPtr, KInterface, KSlice, KMap, KChan} \<and> rvIsNil rv) \<or>
      (rvKind rv \<in> {KPtr, KInterface} \<and> \<not> rvIsNil rv \<and>
       resolvesToNil d R (rvElem (mem R) rv)))"

text \<open>
  The struct encoder in the words of section 4.2. In map mode a field is retained unless
  its omit-if-empty flag is set and its value is empty; an extra field is dropped when its
  name is empty, or when its value is empty and the type omits empty values by default. In
  array mode an empty omit-empty field of a struct, interface, pointer, array, map or
  slice kind is replaced by the zero Value, which is emitted as nil.
\<close>

definition retainedFields ::
  "Runtime \<Rightarrow> bool \<Rightarrow> rvalue \<Rightarrow> structFieldInfo list \<Rightarrow> structFieldInfo list" where
  "retainedFields R recur rv sis =
     filter (\<lambda>si. \<not> (omitEmpty si \<and> isEmptyValue R (field si rv) recur)) sis"

definition extraFields ::
  "Runtime \<Rightarrow> bool \<Rightarrow> bool \<Rightarrow> (string \<times> ival) list \<Rightarrow> (string \<times> ival) list" where
  "extraFields R recur omit mf =
     filter (\<lambda>(k, v). k \<noteq> [] \<and> \<not> (omit \<and> isEmptyValue R (valueOfIval v) recur)) mf"

definition arrayFieldValue :: "Runtime \<Rightarrow> bool \<Rightarrow> rvalue \<Rightarrow> structFieldInfo \<Rightarrow> rvalue" where
  "arrayFieldValue R recur rv si =
     (if omitEmpty si \<and> isEmptyValue R (field si rv) recur \<and>
         rvKind (field si rv) \<in> {KStruct, KInterface, KPtr, KArray, KMap, KSlice}
      then RVInvalid else field si rv)"

text \<open>
  Canonical order in the words of section 4.3: the entries are encoded key by key, the key
  by the call \<open>keyOp\<close> on the driver and the value by \<open>encodeValue\<close>, in an order \<open>ks\<close>
  of the keys of the map that is sorted by the sort key \<open>sk\<close> of the key kind.
\<close>

definition canonicalRun ::
  "encodeValueT \<Rightarrow> rvalue \<Rightarrow> codecFn option \<Rightarrow> (rvalue \<Rightarrow> 'a::linorder) \<Rightarrow> (rvalue \<Rightarrow> op)
     \<Rightarrow> Encoder \<Rightarrow> result \<Rightarrow> bool" where
  "canonicalRun ev rv valFn sk keyOp e res =
     (\<exists>ks. mset ks = mset (rvMapKeys rv) \<and> sorted (map sk ks) \<and>
        res = forEach (\<lambda>k e'.
                ev (mapGet rv k) valFn (mapElemValue (emit (keyOp k) (mapElemKey e')))) ks e)"

text \<open>
  The same for keys with no natural order: \<open>mksbv\<close> pairs each key with the bytes it was
  serialized to, the entries are encoded in an order sorted by these bytes, and the bytes
  are written as they are in place of the key.
\<close>

definition canonicalRunBytes ::
  "encodeValueT \<Rightarrow> rvalue \<Rightarrow> codecFn option \<Rightarrow> (rvalue \<times> nat list) list
     \<Rightarrow> Encoder \<Rightarrow> result \<Rightarrow> bool" where
  "canonicalRunBytes ev rv valFn mksbv e res =
     (map fst mksbv = rvMapKeys rv \<and>
      (\<exists>kvs. mset kvs = mset mksbv \<and> sorted (map snd kvs) \<and>
         res = forEach (\<lambda>kv e'.
                 ev (mapGet rv (fst kv)) valFn
                   (mapElemValue (emit (Writeb (snd kv)) (mapElemKey e')))) kvs e))"

text \<open>The key kinds that have a natural order, besides timestamps.\<close>

definition naturalKinds :: "kind set" where
  "naturalKinds = {KBool, KString, KUint8, KUint16, KUint32, KUint64, KUint, KUintptr,
     KInt8, KInt16, KInt32, KInt64, KInt, KFloat32, KFloat64}"

section \<open>Maps\<close>

text \<open>
  \<^verbatim>\<open>sort.Sort\<close> of the standard library, on the slices \<^verbatim>\<open>boolRvSlice\<close>,
  \<^verbatim>\<open>stringRvSlice\<close>, \<^verbatim>\<open>uint64RvSlice\<close>, \<^verbatim>\<open>int64RvSlice\<close>, \<^verbatim>\<open>float64RvSlice\<close>,
  \<^verbatim>\<open>timeRvSlice\<close> and \<^verbatim>\<open>bytesRvSlice\<close>, whose \<^verbatim>\<open>Less\<close> methods are generated code
  outside this file.

  Modelled from the spec: the comparators of the key kinds of section 4.3, booleans with
  false before true, the natural order of numbers, the lexicographic byte order of strings
  and of encoded keys, the chronological order of timestamps. Each is the order \<open><\<close> of
  HOL on the type of the sort key, and sorting is \<open>sort_key\<close> on the pairs of a key and its
  sort key.
\<close>

definition sort_Sort :: "(rvalue \<times> 'a::linorder) list \<Rightarrow> (rvalue \<times> 'a) list" where
  "sort_Sort mksv = sort_key snd mksv"

text \<open>A fresh encoder on a byte buffer for the same handle: \<^verbatim>\<open>NewEncoderBytes(&mksv, e.hh)\<close>.\<close>

definition NewEncoderBytes :: "Encoder \<Rightarrow> Encoder" where
  "NewEncoderBytes e =
     \<lparr>trace = [], h = h e, hhSet = hhSet e, js = js e, c = containerNone, calls = 0,
      err = None, ci = []\<rparr>"

text \<open>
  The first loop of the out-of-band branch of \<^verbatim>\<open>kMapCanonical\<close>: each key is encoded by
  \<^verbatim>\<open>e2.MustEncode(k)\<close>, and its sort key is what that call added to the buffer. The state
  is \<open>e2\<close> and the pairs collected so far; a panic of \<open>e2\<close> ends the loop.
\<close>

fun kMapCanonical_keys ::
  "encodeT \<Rightarrow> Runtime \<Rightarrow> rvalue list \<Rightarrow> Encoder \<Rightarrow> (rvalue \<times> nat list) list
     \<Rightarrow> (error + (rvalue \<times> nat list) list) option" where
  "kMapCanonical_keys MustEncode R [] e2 mksbv = Some (Inr mksbv)"
| "kMapCanonical_keys MustEncode R (k # ks) e2 mksbv =
     (let l = length (driverBytes R (trace e2)) in
      case MustEncode (Some (reflectValueTyp, DReflect k)) e2 of
        None \<Rightarrow> None
      | Some (Panic x e2) \<Rightarrow> Some (Inl x)
      | Some (Ok e2) \<Rightarrow>
          kMapCanonical_keys MustEncode R ks e2 (mksbv @ [(k, drop l (driverBytes R (trace e2)))]))"

definition kMapCanonical ::
  "encodeValueT \<Rightarrow> encodeT \<Rightarrow> Runtime \<Rightarrow> typeInfo \<Rightarrow> rvalue \<Rightarrow> codecFn option \<Rightarrow> Encoder
     \<Rightarrow> result" where
  "kMapCanonical encodeValue MustEncode R tinfo rv valFn e =
     (let rtkey = key tinfo;
          mks = rvMapKeys rv;
          rtkeyKind = rtKind rtkey
      in
      if rtkeyKind = KBool then
        forEach (\<lambda>kv e.
            encodeValue (mapGet rv (fst kv)) valFn
              (mapElemValue (emit (EncodeBool (snd kv)) (mapElemKey e))))
          (sort_Sort (map (\<lambda>k. (k, rvGetBool k)) mks)) e
      else if rtkeyKind = KString then
        forEach (\<lambda>kv e.
            encodeValue (mapGet rv (fst kv)) valFn
              (mapElemValue (emit (EncodeString (snd kv)) (mapElemKey e))))
          (sort_Sort (map (\<lambda>k. (k, rvGetString k)) mks)) e
      else if rtkeyKind \<in> {KUint8, KUint16, KUint32, KUint64, KUint, KUintptr} then
        forEach (\<lambda>kv e.
            encodeValue (mapGet rv (fst kv)) valFn
              (mapElemValue (emit (EncodeUint (snd kv)) (mapElemKey e))))
          (sort_Sort (map (\<lambda>k. (k, rvGetUint k)) mks)) e
      else if rtkeyKind \<in> {KInt8, KInt16, KInt32, KInt64, KInt} then
        forEach (\<lambda>kv e.
            encodeValue (mapGet rv (fst kv)) valFn
              (mapElemValue (emit (EncodeInt (snd kv)) (mapElemKey e))))
          (sort_Sort (map (\<lambda>k. (k, rvGetInt k)) mks)) e
      else if rtkeyKind = KFloat32 then
        forEach (\<lambda>kv e.
            encodeValue (mapGet rv (fst kv)) valFn
              (mapElemValue (emit (EncodeFloat32 (snd kv)) (mapElemKey e))))
          (sort_Sort (map (\<lambda>k. (k, rvGetFloat k)) mks)) e
      else if rtkeyKind = KFloat64 then
        forEach (\<lambda>kv e.
            encodeValue (mapGet rv (fst kv)) valFn
              (mapElemValue (emit (EncodeFloat64 (snd kv)) (mapElemKey e))))
          (sort_Sort (map (\<lambda>k. (k, rvGetFloat k)) mks)) e
      else if rtkeyKind = KStruct \<and> rtkey = timeTyp then
        forEach (\<lambda>kv e.
            encodeValue (mapGet rv (fst kv)) valFn
              (mapElemValue (emit (EncodeTime (snd kv)) (mapElemKey e))))
          (sort_Sort (map (\<lambda>k. (k, rvGetTime k)) mks)) e
      else
        (case kMapCanonical_keys MustEncode R mks (NewEncoderBytes e) [] of
           None \<Rightarrow> None
         | Some (Inl x) \<Rightarrow> Some (Panic x e)
         | Some (Inr mksbv) \<Rightarrow>
             forEach (\<lambda>kv e.
                 encodeValue (mapGet rv (fst kv)) valFn
                   (mapElemValue (emit (Writeb (snd kv)) (mapElemKey e))))
               (sort_Sort mksbv) e))"

definition kMap ::
  "encodeValueT \<Rightarrow> encodeT \<Rightarrow> Runtime \<Rightarrow> codecFn \<Rightarrow> rvalue \<Rightarrow> Encoder \<Rightarrow> result" where
  "kMap encodeValue MustEncode R f rv e =
     (let l = rvLenMap rv;
          e = mapStart l e
      in
      if l = 0 then ok (mapEnd e)
      else
        let rtval = ptrBase (elem (ti f));
            valFn = (if rtKind rtval \<noteq> KInterface then Some (fn (h e) rtval) else None)
        in
        if Canonical (h e) then
          andThen (kMapCanonical encodeValue MustEncode R (ti f) rv valFn e) (\<lambda>e. ok (mapEnd e))
        else
          let rtkey = key (ti f);
              keyTypeIsString = (stringTyp = rtkey);
              keyFn = (if \<not> keyTypeIsString \<and> rtKind (ptrBase rtkey) \<noteq> KInterface
                       then Some (fn (h e) (ptrBase rtkey)) else None)
          in
          andThen
            (forEach (\<lambda>(k, v) e.
                andThen
                  (if keyTypeIsString then ok (emit (EncodeString (rvGetString k)) (mapElemKey e))
                   else encodeValue k keyFn (mapElemKey e))
                  (\<lambda>e. encodeValue v valFn (mapElemValue e)))
               (rvMapEntries rv) e)
            (\<lambda>e. ok (mapEnd e)))"

section \<open>Marshalers and raw bytes\<close>

text \<open>\<^verbatim>\<open>e.onerror(fnerr)\<close> panics when the user's method returned an error.\<close>

definition onerror :: "string option \<Rightarrow> Encoder \<Rightarrow> result" where
  "onerror fnerr e =
     (case fnerr of None \<Rightarrow> ok e | Some msg \<Rightarrow> errorf (CustomMarshalFailure msg) e)"

definition marshalUtf8 :: "string option \<times> string option \<Rightarrow> Encoder \<Rightarrow> result" where
  "marshalUtf8 res e =
     andThen (onerror (snd res) e) (\<lambda>e.
       case fst res of None \<Rightarrow> ok (emit EncodeNil e) | Some bs \<Rightarrow> ok (emit (EncodeString bs) e))"

definition marshalAsis :: "nat list option \<times> string option \<Rightarrow> Encoder \<Rightarrow> result" where
  "marshalAsis res e =
     andThen (onerror (snd res) e) (\<lambda>e.
       case fst res of None \<Rightarrow> ok (emit EncodeNil e) | Some bs \<Rightarrow> ok (emit (Writeb bs) e))"

definition marshalRaw :: "nat list option \<times> string option \<Rightarrow> Encoder \<Rightarrow> result" where
  "marshalRaw res e =
     andThen (onerror (snd res) e) (\<lambda>e.
       case fst res of
         None \<Rightarrow> ok (emit EncodeNil e)
       | Some bs \<Rightarrow> ok (emit (EncodeStringBytesRaw (Some bs)) e))"

definition rawBytes :: "rvalue \<Rightarrow> Encoder \<Rightarrow> result" where
  "rawBytes vv e =
     (let bs = (case rvGetBytes vv of None \<Rightarrow> [] | Some bs \<Rightarrow> bs) in
      if \<not> Raw (h e) then errorf RawDisallowed e
      else ok (emit (Writeb bs) e))"

section \<open>The entry points and the dispatch\<close>

text \<open>
  \<^verbatim>\<open>Encode\<close> recovers the panic of \<^verbatim>\<open>MustEncode\<close>, records it in \<^verbatim>\<open>e.err\<close> and returns
  it: the error returned is \<open>err\<close> of the encoder returned.
\<close>

definition recovered :: "result \<Rightarrow> result" where
  "recovered res =
     (case res of
        None \<Rightarrow> None
      | Some (Ok e) \<Rightarrow> Some (Ok e)
      | Some (Panic x e) \<Rightarrow> Some (Ok (e\<lparr>err := Some x\<rparr>)))"

text \<open>\<^verbatim>\<open>selferMarshal\<close>: the method of the user runs its encode calls on the encoder.\<close>

definition selferMarshal :: "encodeT \<Rightarrow> Runtime \<Rightarrow> rvalue \<Rightarrow> Encoder \<Rightarrow> result" where
  "selferMarshal MustEncode R rv e =
     forEach (\<lambda>call e.
         case call of
           CallMustEncode iv \<Rightarrow> MustEncode iv e
         | CallEncode iv \<Rightarrow> recovered (MustEncode iv e))
       (CodecEncodeSelf R (rv2i rv)) e"

text \<open>\<^verbatim>\<open>fn.fe(e, &fn.i, rv)\<close>: the call of the function an encoding strategy is bound to.\<close>

definition callFe ::
  "encodeValueT \<Rightarrow> encodeT \<Rightarrow> encodeT \<Rightarrow> Runtime \<Rightarrow> codecFn \<Rightarrow> rvalue \<Rightarrow> Encoder \<Rightarrow> result" where
  "callFe encodeValue encode MustEncode R f rv e =
     (case fe f of
        Fe_rawExt \<Rightarrow> ok (emit (EncodeRawExt (rv2i rv)) e)
      | Fe_ext \<Rightarrow> ok (emit (EncodeExt (rv2i rv) (xfTag f)) e)
      | Fe_selferMarshal \<Rightarrow> selferMarshal MustEncode R rv e
      | Fe_binaryMarshal \<Rightarrow> marshalRaw (MarshalBinary R (rv2i rv)) e
      | Fe_textMarshal \<Rightarrow> marshalUtf8 (MarshalText R (rv2i rv)) e
      | Fe_jsonMarshal \<Rightarrow> marshalAsis (MarshalJSON R (rv2i rv)) e
      | Fe_raw \<Rightarrow> rawBytes rv e
      | Fe_kBool \<Rightarrow> ok (emit (EncodeBool (rvGetBool rv)) e)
      | Fe_kTime \<Rightarrow> ok (emit (EncodeTime (rvGetTime rv)) e)
      | Fe_kString \<Rightarrow> ok (emit (EncodeString (rvGetString rv)) e)
      | Fe_kFloat64 \<Rightarrow> ok (emit (EncodeFloat64 (rvGetFloat rv)) e)
      | Fe_kFloat32 \<Rightarrow> ok (emit (EncodeFloat32 (rvGetFloat rv)) e)
      | Fe_kInt \<Rightarrow> ok (emit (EncodeInt (rvGetInt rv)) e)
      | Fe_kInt8 \<Rightarrow> ok (emit (EncodeInt (rvGetInt rv)) e)
      | Fe_kInt16 \<Rightarrow> ok (emit (EncodeInt (rvGetInt rv)) e)
      | Fe_kInt32 \<Rightarrow> ok (emit (EncodeInt (rvGetInt rv)) e)
      | Fe_kInt64 \<Rightarrow> ok (emit (EncodeInt (rvGetInt rv)) e)
      | Fe_kUint \<Rightarrow> ok (emit (EncodeUint (rvGetUint rv)) e)
      | Fe_kUint8 \<Rightarrow> ok (emit (EncodeUint (rvGetUint rv)) e)
      | Fe_kUint16 \<Rightarrow> ok (emit (EncodeUint (rvGetUint rv)) e)
      | Fe_kUint32 \<Rightarrow> ok (emit (EncodeUint (rvGetUint rv)) e)
      | Fe_kUint64 \<Rightarrow> ok (emit (EncodeUint (rvGetUint rv)) e)
      | Fe_kUintptr \<Rightarrow> ok (emit (EncodeUint (rvGetUint rv)) e)
      | Fe_kErr \<Rightarrow> errorf (UnsupportedValue (rvKind rv)) e
      | Fe_kChan \<Rightarrow> kChan encodeValue f rv e
      | Fe_kSlice \<Rightarrow> kSlice encodeValue f rv e
      | Fe_kArray \<Rightarrow> kArray encodeValue f rv e
      | Fe_kStruct \<Rightarrow> kStruct encodeValue encode R f rv e
      | Fe_kStructNoOmitempty \<Rightarrow> kStructNoOmitempty encodeValue R f rv e
      | Fe_kMap \<Rightarrow> kMap encodeValue MustEncode R f rv e)"

text \<open>
  The end of \<^verbatim>\<open>encodeValue\<close>, after the switch on the kind: the strategy is looked up if
  none was passed, and the value is passed as it is, as the pointer it was reached through
  (\<open>rvp\<close>, when \<^verbatim>\<open>rvpValid\<close>), or by its address.
\<close>

definition encodeValue_call ::
  "encodeValueT \<Rightarrow> encodeT \<Rightarrow> encodeT \<Rightarrow> Runtime \<Rightarrow> rvalue option \<Rightarrow> rvalue \<Rightarrow> codecFn option
     \<Rightarrow> Encoder \<Rightarrow> result" where
  "encodeValue_call encodeValue encode MustEncode R rvp rv fn' e =
     (let f = (case fn' of None \<Rightarrow> fn (h e) (rvType rv) | Some f \<Rightarrow> f) in
      if \<not> addrE f then callFe encodeValue encode MustEncode R f rv e
      else case rvp of
        Some p \<Rightarrow> callFe encodeValue encode MustEncode R f p e
      | None \<Rightarrow>
          if rvCanAddr rv then callFe encodeValue encode MustEncode R f (rvAddr rv) e
          else if addrEf f
            then callFe encodeValue encode MustEncode R f (rvAddr (rvAddressableReadonly rv)) e
          else callFe encodeValue encode MustEncode R f rv e)"

text \<open>
  Modelled from the spec: \<^verbatim>\<open>isNil\<close> of the helpers is not part of this file; by section
  4.1 a nil pointer, interface, slice, map or channel is a nil value.
\<close>

definition isNil :: "iface \<Rightarrow> rvalue \<times> bool" where
  "isNil i =
     (let rv = valueOf i in
      (rv, rvKind rv \<in> {KPtr, KInterface, KSlice, KMap, KChan} \<and> rvIsNil rv))"

text \<open>
  The type switch of \<^verbatim>\<open>encode\<close>, on the dynamic type of \<open>iv\<close>. The fast paths of the
  default case (\<^verbatim>\<open>fastpathEncodeTypeSwitch\<close>) are generated code outside this file: the
  model is the build without them, where the default case calls \<^verbatim>\<open>encodeValue\<close>.
\<close>

definition encode_switch :: "encodeValueT \<Rightarrow> Runtime \<Rightarrow> rvalue \<Rightarrow> Encoder \<Rightarrow> result" where
  "encode_switch encodeValue R rv e =
     (let t = rvType rv; pv = rvElem (mem R) rv in
      if t = rawTyp then rawBytes rv e
      else if t = reflectValueTyp then
        (case rvData rv of DReflect x \<Rightarrow> encodeValue x None e | _ \<Rightarrow> encodeValue rv None e)
      else if t = TBasic KString then ok (emit (EncodeString (rvGetString rv)) e)
      else if t = TBasic KBool then ok (emit (EncodeBool (rvGetBool rv)) e)
      else if t = TBasic KInt then ok (emit (EncodeInt (rvGetInt rv)) e)
      else if t = TBasic KInt8 then ok (emit (EncodeInt (rvGetInt rv)) e)
      else if t = TBasic KInt16 then ok (emit (EncodeInt (rvGetInt rv)) e)
      else if t = TBasic KInt32 then ok (emit (EncodeInt (rvGetInt rv)) e)
      else if t = TBasic KInt64 then ok (emit (EncodeInt (rvGetInt rv)) e)
      else if t = TBasic KUint then ok (emit (EncodeUint (rvGetUint rv)) e)
      else if t = TBasic KUint8 then ok (emit (EncodeUint (rvGetUint rv)) e)
      else if t = TBasic KUint16 then ok (emit (EncodeUint (rvGetUint rv)) e)
      else if t = TBasic KUint32 then ok (emit (EncodeUint (rvGetUint rv)) e)
      else if t = TBasic KUint64 then ok (emit (EncodeUint (rvGetUint rv)) e)
      else if t = TBasic KUintptr then ok (emit (EncodeUint (rvGetUint rv)) e)
      else if t = TBasic KFloat32 then ok (emit (EncodeFloat32 (rvGetFloat rv)) e)
      else if t = TBasic KFloat64 then ok (emit (EncodeFloat64 (rvGetFloat rv)) e)
      else if t = timeTyp then ok (emit (EncodeTime (rvGetTime rv)) e)
      else if t = uint8SliceTyp then ok (emit (EncodeStringBytesRaw (rvGetBytes rv)) e)
      else if t = TPtr rawTyp then rawBytes pv e
      else if t = TPtr (TBasic KString) then ok (emit (EncodeString (rvGetString pv)) e)
      else if t = TPtr (TBasic KBool) then ok (emit (EncodeBool (rvGetBool pv)) e)
      else if t = TPtr (TBasic KInt) then ok (emit (EncodeInt (rvGetInt pv)) e)
      else if t = TPtr (TBasic KInt8) then ok (emit (EncodeInt (rvGetInt pv)) e)
      else if t = TPtr (TBasic KInt16) then ok (emit (EncodeInt (rvGetInt pv)) e)
      else if t = TPtr (TBasic KInt32) then ok (emit (EncodeInt (rvGetInt pv)) e)
      else if t = TPtr (TBasic KInt64) then ok (emit (EncodeInt (rvGetInt pv)) e)
      else if t = TPtr (TBasic KUint) then ok (emit (EncodeUint (rvGetUint pv)) e)
      else if t = TPtr (TBasic KUint8) then ok (emit (EncodeUint (rvGetUint pv)) e)
      else if t = TPtr (TBasic KUint16) then ok (emit (EncodeUint (rvGetUint pv)) e)
      else if t = TPtr (TBasic KUint32) then ok (emit (EncodeUint (rvGetUint pv)) e)
      else if t = TPtr (TBasic KUint64) then ok (emit (EncodeUint (rvGetUint pv)) e)
      else if t = TPtr (TBasic KUintptr) then ok (emit (EncodeUint (rvGetUint pv)) e)
      else if t = TPtr (TBasic KFloat32) then ok (emit (EncodeFloat32 (rvGetFloat pv)) e)
      else if t = TPtr (TBasic KFloat64) then ok (emit (EncodeFloat64 (rvGetFloat pv)) e)
      else if t = TPtr timeTyp then ok (emit (EncodeTime (rvGetTime pv)) e)
      else if t = TPtr uint8SliceTyp then
        (if rvIsNil pv then ok (emit EncodeNil e)
         else ok (emit (EncodeStringBytesRaw (rvGetBytes pv)) e))
      else encodeValue rv None e)"

definition encode_body :: "encodeValueT \<Rightarrow> Runtime \<Rightarrow> ival \<Rightarrow> Encoder \<Rightarrow> result" where
  "encode_body encodeValue R iv e =
     (case iv of
        None \<Rightarrow> ok (emit EncodeNil e)
      | Some i \<Rightarrow>
          (case isNil i of (rv, isnil) \<Rightarrow>
             if isnil then ok (emit EncodeNil e)
             else encode_switch encodeValue R rv e))"

definition MustEncode_body :: "encodeT \<Rightarrow> ival \<Rightarrow> Encoder \<Rightarrow> result" where
  "MustEncode_body encode iv e =
     (case err e of
        Some x \<Rightarrow> Some (Panic x e)
      | None \<Rightarrow>
          if \<not> hhSet e then Some (Panic NoFormatHandle e)
          else
            andThen (encode iv (e\<lparr>calls := calls e + 1\<rparr>)) (\<lambda>e.
              let e = e\<lparr>calls := calls e - 1\<rparr> in
              if calls e = 0 then ok (emit WriterEnd (emit AtEndOfEncode e))
              else ok e))"

text \<open>
  The switch of \<^verbatim>\<open>encodeValue\<close> at the label \<^verbatim>\<open>TOP\<close>. \<open>again\<close> is the jump back to
  \<^verbatim>\<open>TOP\<close> with the locals \<open>rvp\<close> and \<open>rv\<close> as they are then; \<open>call\<close> is the rest of the
  function after the switch.
\<close>

definition encodeValue_body ::
  "(rvalue option \<Rightarrow> rvalue \<Rightarrow> codecFn option \<Rightarrow> Encoder \<Rightarrow> result)
     \<Rightarrow> (rvalue option \<Rightarrow> rvalue \<Rightarrow> codecFn option \<Rightarrow> Encoder \<Rightarrow> result)
     \<Rightarrow> Runtime \<Rightarrow> rvalue option \<Rightarrow> rvalue \<Rightarrow> codecFn option \<Rightarrow> Encoder \<Rightarrow> result" where
  "encodeValue_body again call R rvp rv fn' e =
     (let k = rvKind rv in
      if k = KPtr then
        (if rvIsNil rv then ok (emit EncodeNil e)
         else
           let rvp = rv;
               rv = rvElem (mem R) rv
           in
           if CheckCircularRef (h e) \<and> rvKind rv = KStruct then
             (let sptr = rv2i rvp in
              if list_ex (eq4i sptr) (ci e) then errorf (CircularReference sptr) e
              else
                andThen (call (Some rvp) rv fn' (e\<lparr>ci := ci e @ [sptr]\<rparr>)) (\<lambda>e.
                  if ci e = [] then errorf (RuntimePanic ''slice bounds out of range'') e
                  else ok (e\<lparr>ci := butlast (ci e)\<rparr>)))
           else again (Some rvp) rv fn' e)
      else if k = KInterface then
        (if rvIsNil rv then ok (emit EncodeNil e)
         else again rvp (rvElem (mem R) rv) fn' e)
      else if k = KSlice \<or> k = KMap \<or> k = KChan then
        (if rvIsNil rv then ok (emit EncodeNil e)
         else call rvp rv fn' e)
      else if k = KInvalid \<or> k = KFunc then ok (emit EncodeNil e)
      else call rvp rv fn' e)"

text \<open>
  The recursion of the engine. The first argument bounds the depth of the calls and of
  the jumps to \<^verbatim>\<open>TOP\<close>: \<open>None\<close> is a run that needs more, and a run on cyclic data with
  no cycle check needs more than any bound. \<open>encodeValue\<close> takes the local \<open>rvp\<close> as an
  argument; a call from outside passes \<open>None\<close> (\<^verbatim>\<open>rvpValid\<close> is false).
\<close>

fun encodeValue ::
      "nat \<Rightarrow> Runtime \<Rightarrow> rvalue option \<Rightarrow> rvalue \<Rightarrow> codecFn option \<Rightarrow> Encoder \<Rightarrow> result"
  and encode :: "nat \<Rightarrow> Runtime \<Rightarrow> ival \<Rightarrow> Encoder \<Rightarrow> result"
  and MustEncode :: "nat \<Rightarrow> Runtime \<Rightarrow> ival \<Rightarrow> Encoder \<Rightarrow> result" where
  "encodeValue 0 R rvp rv fn' e = None"
| "encodeValue (Suc n) R rvp rv fn' e =
     encodeValue_body
       (\<lambda>rvp rv fn' e. encodeValue n R rvp rv fn' e)
       (encodeValue_call
          (\<lambda>rv fn' e. encodeValue n R None rv fn' e)
          (\<lambda>iv e. encode n R iv e)
          (\<lambda>iv e. MustEncode n R iv e) R)
       R rvp rv fn' e"
| "encode 0 R iv e = None"
| "encode (Suc n) R iv e =
     encode_body (\<lambda>rv fn' e. encodeValue n R None rv fn' e) R iv e"
| "MustEncode 0 R iv e = None"
| "MustEncode (Suc n) R iv e = MustEncode_body (\<lambda>iv e. encode n R iv e) iv e"

definition Encode :: "nat \<Rightarrow> Runtime \<Rightarrow> ival \<Rightarrow> Encoder \<Rightarrow> result" where
  "Encode n R iv e = recovered (MustEncode n R iv e)"

section \<open>A registry and a runtime for concrete runs\<close>

text \<open>
  Modelled from the spec: the registry lookup \<^verbatim>\<open>e.h.fn\<close> is not part of this file. For
  a type with no custom capability it selects the built-in handling of the kind
  (section 4.1, item 5, entry 7), and \<^verbatim>\<open>kErr\<close> for a kind that has none. The descriptor
  of a type with no struct tags: no map-by-slice, string keys, no fields.
\<close>

fun rtKey :: "rtype \<Rightarrow> rtype" where
  "rtKey (TNamed n t) = rtKey t"
| "rtKey (TMap k v) = k"
| "rtKey t = t"

fun rtChanDir :: "rtype \<Rightarrow> nat" where
  "rtChanDir (TNamed n t) = rtChanDir t"
| "rtChanDir (TChan d t) = d"
| "rtChanDir t = 0"

definition stdTypeInfo :: "rtype \<Rightarrow> typeInfo" where
  "stdTypeInfo t =
     \<lparr>rtid = t, elem = rtElem t, key = rtKey t, mbs = False, chandir = rtChanDir t,
      toArray = False, keyType = valueTypeString, sfiSrc = [], sfiSort = [],
      flagMissingFielder = False, flagMissingFielderPtr = False, infoFieldOmitempty = False\<rparr>"

fun stdFe :: "kind \<Rightarrow> feFunc" where
  "stdFe KBool = Fe_kBool"
| "stdFe KInt = Fe_kInt"
| "stdFe KInt8 = Fe_kInt8"
| "stdFe KInt16 = Fe_kInt16"
| "stdFe KInt32 = Fe_kInt32"
| "stdFe KInt64 = Fe_kInt64"
| "stdFe KUint = Fe_kUint"
| "stdFe KUint8 = Fe_kUint8"
| "stdFe KUint16 = Fe_kUint16"
| "stdFe KUint32 = Fe_kUint32"
| "stdFe KUint64 = Fe_kUint64"
| "stdFe KUintptr = Fe_kUintptr"
| "stdFe KFloat32 = Fe_kFloat32"
| "stdFe KFloat64 = Fe_kFloat64"
| "stdFe KString = Fe_kString"
| "stdFe KChan = Fe_kChan"
| "stdFe KSlice = Fe_kSlice"
| "stdFe KArray = Fe_kArray"
| "stdFe KStruct = Fe_kStruct"
| "stdFe KMap = Fe_kMap"
| "stdFe k = Fe_kErr"

definition stdFn :: "(rtype \<Rightarrow> typeInfo) \<Rightarrow> rtype \<Rightarrow> codecFn" where
  "stdFn tinfos t =
     \<lparr>fe = (if t = timeTyp then Fe_kTime else stdFe (rtKind t)), ti = tinfos t, xfTag = 0,
      addrE = False, addrEf = False\<rparr>"

text \<open>The handle with every option off, over a table of type descriptors.\<close>

definition stdHandle :: "(rtype \<Rightarrow> typeInfo) \<Rightarrow> BasicHandle" where
  "stdHandle tinfos =
     \<lparr>ChanRecvTimeout = 0, StructToArray = False, Canonical = False, CheckCircularRef = False,
      RecursiveEmptyCheck = False, Raw = False, fn = stdFn tinfos, getTypeInfo = tinfos\<rparr>"

text \<open>An encoder after \<^verbatim>\<open>Reset\<close>, for a binary format.\<close>

definition newEncoder :: "BasicHandle \<Rightarrow> Encoder" where
  "newEncoder bh =
     \<lparr>trace = [], h = bh, hhSet = True, js = False, c = containerNone, calls = 0, err = None,
      ci = []\<rparr>"

text \<open>
  The empty values of the documentation of \<^verbatim>\<open>Encode\<close>: false, 0, a nil pointer or
  interface, and an array, slice, map or string of length zero.
\<close>

fun emptyData :: "rdata \<Rightarrow> bool" where
  "emptyData DNil = True"
| "emptyData (DBool b) = (\<not> b)"
| "emptyData (DInt i) = (i = 0)"
| "emptyData (DUint n) = (n = 0)"
| "emptyData (DFloat x) = (x = 0)"
| "emptyData (DString s) = (s = [])"
| "emptyData (DSeq xs) = (xs = [])"
| "emptyData (DMap m) = (m = [])"
| "emptyData d = False"

definition stdIsEmptyValue :: "rvalue \<Rightarrow> bool \<Rightarrow> bool" where
  "stdIsEmptyValue rv recur = emptyData (rvData rv)"

text \<open>
  A runtime over a memory: no user methods, no parser, and a driver that writes the bytes
  of a string, one byte for an unsigned integer, and nothing for any other call.
\<close>

fun opBytes :: "op \<Rightarrow> nat list" where
  "opBytes (EncodeString s) = map of_char s"
| "opBytes (EncodeUint n) = [n]"
| "opBytes x = []"

definition stdRuntime :: "(nat \<Rightarrow> rvalue) \<Rightarrow> Runtime" where
  "stdRuntime m =
     \<lparr>mem = m, isEmptyValue = stdIsEmptyValue, CodecMissingFields = (\<lambda>i. []),
      CodecEncodeSelf = (\<lambda>i. []), MarshalBinary = (\<lambda>i. (None, None)),
      MarshalText = (\<lambda>i. (None, None)), MarshalJSON = (\<lambda>i. (None, None)),
      driverBytes = (\<lambda>ops. concat (map opBytes ops)), ParseInt = (\<lambda>s. None),
      ParseUint = (\<lambda>s. None), ParseFloat = (\<lambda>s. None)\<rparr>"

definition noMem :: "nat \<Rightarrow> rvalue" where
  "noMem p = RVInvalid"

definition exEncoder :: Encoder where
  "exEncoder = newEncoder (stdHandle stdTypeInfo)"

text \<open>A memory for the examples: a nil byte slice, an empty one, and a nil slice of ints.\<close>

definition exMem :: "nat \<Rightarrow> rvalue" where
  "exMem p =
     (if p = 1 then RV uint8SliceTyp True DNil
      else if p = 2 then RV uint8SliceTyp True (DSeq [])
      else if p = 3 then RV (TSlice (TBasic KInt)) True DNil
      else RVInvalid)"

text \<open>
  A struct type \<open>T\<close> with the fields \<open>b\<close> (an int, omitted when empty), \<open>a\<close> (a string)
  and \<open>p\<close> (a slice of ints, omitted when empty), declared in this order, and a value of
  it whose \<open>b\<close> is 0 and whose \<open>p\<close> is an empty slice.
\<close>

definition exFieldB :: structFieldInfo where
  "exFieldB = \<lparr>encName = ''b'', omitEmpty = True, encNameAsciiAlphaNum = True, fieldIndex = 0\<rparr>"

definition exFieldA :: structFieldInfo where
  "exFieldA = \<lparr>encName = ''a'', omitEmpty = False, encNameAsciiAlphaNum = True, fieldIndex = 1\<rparr>"

definition exFieldP :: structFieldInfo where
  "exFieldP = \<lparr>encName = ''p'', omitEmpty = True, encNameAsciiAlphaNum = True, fieldIndex = 2\<rparr>"

definition exTypeInfos :: "rtype \<Rightarrow> typeInfo" where
  "exTypeInfos t =
     (if t = TStruct ''T''
      then (stdTypeInfo t)\<lparr>sfiSrc := [exFieldB, exFieldA, exFieldP],
                            sfiSort := [exFieldA, exFieldB, exFieldP]\<rparr>
      else stdTypeInfo t)"

definition exStruct :: rvalue where
  "exStruct =
     RV (TStruct ''T'') False
       (DStruct [RV (TBasic KInt) False (DInt 0),
                 RV (TBasic KString) False (DString ''x''),
                 RV (TSlice (TBasic KInt)) False (DSeq [])])"

text \<open>A map from ints to strings, iterated in the order 3, 1, 2.\<close>

definition exMap :: rvalue where
  "exMap =
     RV (TMap (TBasic KInt) (TBasic KString)) False
       (DMap [(RV (TBasic KInt) False (DInt 3), RV (TBasic KString) False (DString ''c'')),
              (RV (TBasic KInt) False (DInt 1), RV (TBasic KString) False (DString ''a'')),
              (RV (TBasic KInt) False (DInt 2), RV (TBasic KString) False (DString ''b''))])"

text \<open>A map with keys of interface type, holding the unsigned integers 9 and 4.\<close>

definition exMapIface :: rvalue where
  "exMapIface =
     RV (TMap TInterface (TBasic KString)) False
       (DMap [(RV TInterface False (DIface (RV (TBasic KUint) False (DUint 9))),
               RV (TBasic KString) False (DString ''z'')),
              (RV TInterface False (DIface (RV (TBasic KUint) False (DUint 4))),
               RV (TBasic KString) False (DString ''y''))])"

text \<open>The handle with the option \<open>Canonical\<close> set.\<close>

definition canonicalHandle :: BasicHandle where
  "canonicalHandle = (stdHandle stdTypeInfo)\<lparr>Canonical := True\<rparr>"

text \<open>
  A struct type \<open>N\<close> with one field \<open>next\<close>, a pointer to \<open>N\<close>. In the memory, the
  struct at address 10 points to itself and the struct at address 11 has a nil pointer.
  The handle checks for circular references.
\<close>

definition exNodeInfos :: "rtype \<Rightarrow> typeInfo" where
  "exNodeInfos t =
     (if t = TStruct ''N''
      then (stdTypeInfo t)
        \<lparr>sfiSrc := [\<lparr>encName = ''next'', omitEmpty = False, encNameAsciiAlphaNum = True,
                     fieldIndex = 0\<rparr>],
         sfiSort := [\<lparr>encName = ''next'', omitEmpty = False, encNameAsciiAlphaNum = True,
                      fieldIndex = 0\<rparr>]\<rparr>
      else stdTypeInfo t)"

definition exNodeMem :: "nat \<Rightarrow> rvalue" where
  "exNodeMem p =
     (if p = 10 then RV (TStruct ''N'') True (DStruct [RV (TPtr (TStruct ''N'')) True (DPtr 10)])
      else if p = 11 then RV (TStruct ''N'') True (DStruct [RV (TPtr (TStruct ''N'')) True DNil])
      else RVInvalid)"

definition checkingEncoder :: Encoder where
  "checkingEncoder = newEncoder ((stdHandle exNodeInfos)\<lparr>CheckCircularRef := True\<rparr>)"

text \<open>
  A type \<open>S\<close> with a method \<^verbatim>\<open>CodecEncodeSelf\<close> that calls \<^verbatim>\<open>MustEncode(5)\<close> on the
  encoder it is given, and a registry that selects this method for \<open>S\<close>.
\<close>

definition exSelferFn :: "rtype \<Rightarrow> codecFn" where
  "exSelferFn t =
     (if t = TStruct ''S''
      then \<lparr>fe = Fe_selferMarshal, ti = stdTypeInfo t, xfTag = 0, addrE = False, addrEf = False\<rparr>
      else stdFn stdTypeInfo t)"

definition exSelferRuntime :: Runtime where
  "exSelferRuntime =
     (stdRuntime noMem)
       \<lparr>CodecEncodeSelf :=
          (\<lambda>i. if fst i = TStruct ''S'' then [CallMustEncode (Some (TBasic KInt, DInt 5))] else [])\<rparr>"

definition selferEncoder :: Encoder where
  "selferEncoder = newEncoder ((stdHandle stdTypeInfo)\<lparr>fn := exSelferFn\<rparr>)"

text \<open>
  A slice type \<open>Pairs\<close> declared map-by-slice, with elements of interface type, and the
  values \<^verbatim>\<open>["a", 1, "b", 2]\<close> and \<^verbatim>\<open>["a", 1, "b"]\<close> of it.
\<close>

definition exPairsInfos :: "rtype \<Rightarrow> typeInfo" where
  "exPairsInfos t =
     (if t = TNamed ''Pairs'' (TSlice TInterface) then (stdTypeInfo t)\<lparr>mbs := True\<rparr>
      else stdTypeInfo t)"

definition exPairs :: rvalue where
  "exPairs =
     RV (TNamed ''Pairs'' (TSlice TInterface)) False
       (DSeq [RV TInterface True (DIface (RV (TBasic KString) False (DString ''a''))),
              RV TInterface True (DIface (RV (TBasic KInt) False (DInt 1))),
              RV TInterface True (DIface (RV (TBasic KString) False (DString ''b''))),
              RV TInterface True (DIface (RV (TBasic KInt) False (DInt 2)))])"

definition exPairsOdd :: rvalue where
  "exPairsOdd =
     RV (TNamed ''Pairs'' (TSlice TInterface)) False
       (DSeq [RV TInterface True (DIface (RV (TBasic KString) False (DString ''a''))),
              RV TInterface True (DIface (RV (TBasic KInt) False (DInt 1))),
              RV TInterface True (DIface (RV (TBasic KString) False (DString ''b'')))])"

section \<open>Properties of runs\<close>

text \<open>
  A property \<open>Q e r\<close> relates the encoder \<open>e\<close> a run starts from to its outcome \<open>r\<close>.
  \<open>runs Q e0 res\<close>: if the run \<open>res\<close> returns or panics, its outcome is related to
  \<open>e0\<close>. \<open>frame Q\<close>: the property holds of a run that does nothing, is kept by a call on
  the driver other than the two calls that finish a stream, by a change of the container
  state, by a panic and by its recovery, by a run that follows, and by a run between the
  push and the pop of the stack of open struct pointers.
\<close>

fun st :: "outcome \<Rightarrow> Encoder" where
  "st (Ok e) = e"
| "st (Panic x e) = e"

fun isOk :: "outcome \<Rightarrow> bool" where
  "isOk (Ok e) = True"
| "isOk (Panic x e) = False"

definition runs :: "(Encoder \<Rightarrow> outcome \<Rightarrow> bool) \<Rightarrow> Encoder \<Rightarrow> result \<Rightarrow> bool" where
  "runs Q e0 res = (\<forall>r. res = Some r \<longrightarrow> Q e0 r)"

definition popCi :: "Encoder \<Rightarrow> outcome" where
  "popCi e =
     (if ci e = [] then Panic (RuntimePanic ''slice bounds out of range'') e
      else Ok (e\<lparr>ci := butlast (ci e)\<rparr>))"

definition frame :: "(Encoder \<Rightarrow> outcome \<Rightarrow> bool) \<Rightarrow> bool" where
  "frame Q =
     ((\<forall>e. Q e (Ok e)) \<and>
      (\<forall>e0 e x. Q e0 (Ok e) \<longrightarrow> x \<noteq> AtEndOfEncode \<longrightarrow> x \<noteq> WriterEnd \<longrightarrow> Q e0 (Ok (emit x e))) \<and>
      (\<forall>e0 e s. Q e0 (Ok e) \<longrightarrow> Q e0 (Ok (e\<lparr>c := s\<rparr>))) \<and>
      (\<forall>e0 e x. Q e0 (Ok e) \<longrightarrow> Q e0 (Panic x e)) \<and>
      (\<forall>e0 e r. Q e0 (Ok e) \<longrightarrow> Q e r \<longrightarrow> Q e0 r) \<and>
      (\<forall>e0 e x. Q e0 (Panic x e) \<longrightarrow> Q e0 (Ok (e\<lparr>err := Some x\<rparr>))) \<and>
      (\<forall>e0 e s x e1. Q e0 (Ok e) \<longrightarrow> Q (e\<lparr>ci := ci e @ [s]\<rparr>) (Panic x e1) \<longrightarrow>
         Q e0 (Panic x e1)) \<and>
      (\<forall>e0 e s e1. Q e0 (Ok e) \<longrightarrow> Q (e\<lparr>ci := ci e @ [s]\<rparr>) (Ok e1) \<longrightarrow>
         Q e0 (popCi e1)))"

text \<open>
  The property of the reentrancy counter: a run only adds to the calls made on the driver
  and the writer; started with a counter of at least one, it adds neither of the two calls
  that finish a stream; it never lowers the counter; and unless an error was recorded, it
  returns with the counter it started with.
\<close>

definition noFinal :: "op list \<Rightarrow> bool" where
  "noFinal ops = (AtEndOfEncode \<notin> set ops \<and> WriterEnd \<notin> set ops)"

definition callsKept :: "Encoder \<Rightarrow> outcome \<Rightarrow> bool" where
  "callsKept e r =
     ((\<exists>ops. trace (st r) = trace e @ ops \<and> (1 \<le> calls e \<longrightarrow> noFinal ops)) \<and>
      calls e \<le> calls (st r) \<and>
      (err (st r) = None \<longrightarrow> err e = None \<and> (isOk r \<longrightarrow> calls (st r) = calls e)))"

text \<open>
  The property of the stack of open struct pointers: unless an error was recorded, a run
  that returns leaves the stack as it found it.
\<close>

definition ciKept :: "Encoder \<Rightarrow> outcome \<Rightarrow> bool" where
  "ciKept e r =
     (err (st r) = None \<longrightarrow> err e = None \<and> (isOk r \<longrightarrow> ci (st r) = ci e))"

section \<open>Basic facts about sequencing and loops\<close>

declare encodeValue.simps [simp del] encode.simps [simp del] MustEncode.simps [simp del]

lemma exEncoder_simps [simp]:
  "trace exEncoder = []" "h exEncoder = stdHandle stdTypeInfo" "ci exEncoder = []"
  "err exEncoder = None" "calls exEncoder = 0" "hhSet exEncoder" "\<not> js exEncoder"
  by (simp_all add: exEncoder_def newEncoder_def)

lemma stdHandle_simps [simp]:
  "fn (stdHandle ts) = stdFn ts" "getTypeInfo (stdHandle ts) = ts"
  "\<not> Canonical (stdHandle ts)" "\<not> CheckCircularRef (stdHandle ts)"
  "\<not> StructToArray (stdHandle ts)" "\<not> RecursiveEmptyCheck (stdHandle ts)"
  "\<not> Raw (stdHandle ts)" "ChanRecvTimeout (stdHandle ts) = 0"
  by (simp_all add: stdHandle_def)

lemma andThen_assoc: "andThen (andThen r f) g = andThen r (\<lambda>e. andThen (f e) g)"
  by (cases "(r, f)" rule: andThen.cases) simp_all

lemma andThen_ok [simp]: "andThen (ok e) f = f e"
  by (simp add: ok_def)

lemma andThen_errorf [simp]: "andThen (errorf x e) f = errorf x e"
  by (simp add: errorf_def)

lemma forEach_Cons_fun: "forEach body (x # xs) = (\<lambda>e. andThen (body x e) (forEach body xs))"
  by (intro ext) simp

lemma forEach_map: "forEach body (map g xs) e = forEach (\<lambda>x. body (g x)) xs e"
proof (induction xs arbitrary: e)
  case (Cons x xs)
  then have "forEach body (map g xs) = forEach (\<lambda>x. body (g x)) xs" by blast
  then show ?case by simp
qed simp

lemma forEach_cong:
  "(\<And>x e. x \<in> set xs \<Longrightarrow> f x e = g x e) \<Longrightarrow> forEach f xs e = forEach g xs e"
proof (induction xs arbitrary: e)
  case (Cons x xs)
  then have "forEach f xs = forEach g xs" by (intro ext) simp
  with Cons.prems show ?case by simp
qed simp

lemma forEach_nth_map:
  "length ys = n \<Longrightarrow>
   forEach (\<lambda>j e. B (ys ! j) e) [0..<n] e = forEach B ys e"
proof -
  assume "length ys = n"
  then have "map (\<lambda>j. ys ! j) [0..<n] = ys" using map_nth [of ys] by auto
  then have "forEach B ys e = forEach B (map (\<lambda>j. ys ! j) [0..<n]) e" by simp
  then show ?thesis by (simp only: forEach_map)
qed

lemma upt_two: "[0..<Suc (Suc n)] = 0 # Suc 0 # map (\<lambda>j. Suc (Suc j)) [0..<n]"
  by (induction n) simp_all

section \<open>Map-by-slice sequences\<close>

lemma mbs_loop:
  "even (length xs) \<Longrightarrow>
   forEach (\<lambda>j e. ev (if j < length xs then xs ! j else RVInvalid) f
              (if j AND 1 = 0 then mapElemKey e else mapElemValue e)) [0..<length xs] e
   = forEach (\<lambda>(k, v) e. andThen (ev k f (mapElemKey e)) (\<lambda>e. ev v f (mapElemValue e)))
       (mbsPairs xs) e"
proof (induction xs arbitrary: e rule: mbsPairs.induct)
  case (1 k v xs)
  have ev: "even (length xs)" using 1(2) by simp
  let ?B = "\<lambda>ys j e. ev (if j < length ys then ys ! j else RVInvalid) f
              (if j AND 1 = 0 then mapElemKey e else mapElemValue e)"
  have shift: "forEach (\<lambda>j. ?B (k # v # xs) (Suc (Suc j))) [0..<length xs] e'
     = forEach (?B xs) [0..<length xs] e'" for e'
    by (rule forEach_cong) (simp add: and_one_eq)
  have rest: "forEach (?B (k # v # xs)) (map (\<lambda>j. Suc (Suc j)) [0..<length xs])
     = forEach (\<lambda>(k, v) e. andThen (ev k f (mapElemKey e)) (\<lambda>e. ev v f (mapElemValue e)))
       (mbsPairs xs)"
    by (intro ext) (simp only: forEach_map shift 1(1)[OF ev])
  show ?case
    using rest by (simp add: upt_two forEach_Cons_fun and_one_eq andThen_assoc del: upt_Suc)
qed simp_all

lemma mbsPairs_length: "length (mbsPairs xs) = length xs div 2"
  by (induction xs rule: mbsPairs.induct) simp_all

lemma mbsPairs_nth:
  "i < length xs div 2 \<Longrightarrow> mbsPairs xs ! i = (xs ! (2 * i), xs ! (2 * i + 1))"
proof (induction xs arbitrary: i rule: mbsPairs.induct)
  case (1 k v xs)
  then show ?case by (cases i) simp_all
qed simp_all

lemma h_mapStart [simp]: "h (mapStart l e) = h e"
  by (simp add: mapStart_def emit_def)

lemmas run_simps =
  encodeValue.simps encode.simps MustEncode.simps encodeValue_body_def encodeValue_call_def
  callFe_def stdFn_def stdTypeInfo_def stdRuntime_def timeTyp_def rvIsNil_def
  mapStart_def mapEnd_def mapElemKey_def mapElemValue_def arrayStart_def arrayEnd_def
  arrayElem_def emit_def ok_def errorf_def newEncoder_def stdHandle_def Let_def

lemma canonicalHandle_simps [simp]:
  "fn canonicalHandle = stdFn stdTypeInfo" "Canonical canonicalHandle"
  "\<not> CheckCircularRef canonicalHandle"
  by (simp_all add: canonicalHandle_def stdHandle_def)

section \<open>Nil values\<close>

lemma resolvesToNil_kind:
  "resolvesToNil d R rv \<Longrightarrow> rvKind rv \<in> {KPtr, KInterface, KSlice, KMap, KChan}"
  by (cases d) auto

lemma encodeValue_nil_now:
  "rvKind rv \<in> {KPtr, KInterface, KSlice, KMap, KChan} \<Longrightarrow> rvIsNil rv \<Longrightarrow>
   encodeValue (Suc n) R rvp rv fn' e = ok (emit EncodeNil e)"
  by (auto simp: encodeValue_body_def encodeValue.simps)

text \<open>
  Claim C6. For a value whose active representation is nil (a nil pointer, interface,
  slice, map or channel, directly or behind pointers and interfaces), \<open>encodeValue\<close>
  returns with one \<open>EncodeNil\<close> added to the calls on the driver and nothing else
  changed, whatever strategy was passed: no handler runs.
\<close>

theorem encodeValue_nil:
  "resolvesToNil d R rv \<Longrightarrow> d < n \<Longrightarrow>
   encodeValue n R rvp rv fn' e = Some (Ok (e\<lparr>trace := trace e @ [EncodeNil]\<rparr>))"
proof (induction d arbitrary: n rv rvp)
  case 0
  then obtain m where "n = Suc m" by (cases n) auto
  with 0 show ?case by (simp add: encodeValue_nil_now ok_def emit_def)
next
  case (Suc d)
  then obtain m where n: "n = Suc m" and m: "d < m" by (cases n) auto
  show ?case
  proof (cases "rvKind rv \<in> {KPtr, KInterface, KSlice, KMap, KChan} \<and> rvIsNil rv")
    case True
    then show ?thesis using n by (simp add: encodeValue_nil_now ok_def emit_def)
  next
    case False
    with Suc.prems have k: "rvKind rv \<in> {KPtr, KInterface}" and nn: "\<not> rvIsNil rv"
      and r: "resolvesToNil d R (rvElem (mem R) rv)" by auto
    from resolvesToNil_kind [OF r] have ns: "rvKind (rvElem (mem R) rv) \<noteq> KStruct" by auto
    have IH: "encodeValue m R rvp' (rvElem (mem R) rv) fn' e
       = Some (Ok (e\<lparr>trace := trace e @ [EncodeNil]\<rparr>))" for rvp'
      using Suc.IH [OF r m] .
    show ?thesis using k nn ns IH n
      by (auto simp: encodeValue_body_def Let_def encodeValue.simps)
  qed
qed

theorem encodeValue_nil_witness:
  "resolvesToNil (Suc 0) (stdRuntime exMem) (RV (TPtr (TSlice (TBasic KInt))) False (DPtr 3)) \<and>
   encodeValue (Suc (Suc 0)) (stdRuntime exMem) None
     (RV (TPtr (TSlice (TBasic KInt))) False (DPtr 3)) None exEncoder
     = Some (Ok (exEncoder\<lparr>trace := [EncodeNil]\<rparr>))"
proof -
  have r: "resolvesToNil (Suc 0) (stdRuntime exMem) (RV (TPtr (TSlice (TBasic KInt))) False (DPtr 3))"
    by (simp add: rvIsNil_def stdRuntime_def exMem_def)
  from encodeValue_nil [OF r, of "Suc (Suc 0)" None None exEncoder] r
  show ?thesis by simp
qed

section \<open>Values with no encoding strategy\<close>

text \<open>
  Claim C7 as stated fails: encoding a bare function value does not fail, it emits nil.
\<close>

theorem func_value_counterexample:
  "encodeValue (Suc 0) (stdRuntime noMem) None (RV TFunc False DFunc) None exEncoder
     = Some (Ok (emit EncodeNil exEncoder))"
  by (simp add: encodeValue.simps encodeValue_body_def ok_def)

text \<open>
  Claim C7, amended. A value handed to \<open>kErr\<close>, the strategy of a kind that has none,
  fails with \<open>UnsupportedValue\<close>, and nothing is written. A function value, like the
  zero Value, never reaches a strategy: \<open>encodeValue\<close> emits nil for it and returns.
\<close>

theorem kErr_unsupported_but_func_nil:
  "(fe f = Fe_kErr \<longrightarrow>
      callFe ev en me R f rv e = Some (Panic (UnsupportedValue (rvKind rv)) e)) \<and>
   (rvKind rv \<notin> {KPtr, KInterface, KSlice, KMap, KChan, KInvalid, KFunc} \<and>
    fe (fn (h e) (rvType rv)) = Fe_kErr \<and> \<not> addrE (fn (h e) (rvType rv)) \<longrightarrow>
      encodeValue (Suc n) R rvp rv None e = Some (Panic (UnsupportedValue (rvKind rv)) e)) \<and>
   (rvKind rv \<in> {KInvalid, KFunc} \<longrightarrow>
      encodeValue (Suc n) R rvp rv fn' e = Some (Ok (emit EncodeNil e)))"
  by (auto simp: callFe_def errorf_def encodeValue.simps encodeValue_body_def
        encodeValue_call_def ok_def)

theorem kErr_unsupported_but_func_nil_witness:
  "encodeValue (Suc 0) (stdRuntime noMem) None (RV (TBasic KComplex128) False DOpaque) None exEncoder
     = Some (Panic (UnsupportedValue KComplex128) exEncoder) \<and>
   encodeValue (Suc 0) (stdRuntime noMem) None (RV TFunc False DFunc) None exEncoder
     = Some (Ok (emit EncodeNil exEncoder))"
  using kErr_unsupported_but_func_nil [of "stdFn stdTypeInfo (TBasic KComplex128)" undefined undefined undefined
      "stdRuntime noMem" "RV (TBasic KComplex128) False DOpaque" exEncoder 0 None None]
    kErr_unsupported_but_func_nil [of "stdFn stdTypeInfo TFunc" undefined undefined undefined
      "stdRuntime noMem" "RV TFunc False DFunc" exEncoder 0 None None]
  by (simp add: stdFn_def timeTyp_def)

section \<open>Send-only channels\<close>

text \<open>
  Claim C8 as stated fails for a nil channel: \<open>encodeValue\<close> emits nil for it before any
  strategy is looked up, whatever its direction.
\<close>

theorem nil_sendonly_chan_counterexample:
  "encodeValue (Suc 0) (stdRuntime noMem) None (RV (TChan 2 (TBasic KInt)) False DNil) None exEncoder
     = Some (Ok (emit EncodeNil exEncoder))"
  by (simp add: encodeValue.simps encodeValue_body_def ok_def rvIsNil_def)

text \<open>
  Claim C8, amended. \<open>kChan\<close> fails with \<open>SendOnlyChannel\<close> on a channel type with no
  receive direction, before it drains or writes anything; so does \<open>encodeValue\<close> on a
  send-only channel that is not nil and whose strategy is \<open>kChan\<close>.
\<close>

theorem kChan_sendonly_fails:
  "(chandir (ti f) AND 1 = 0 \<longrightarrow> kChan ev f rv e = Some (Panic SendOnlyChannel e)) \<and>
   (rvKind rv = KChan \<and> \<not> rvIsNil rv \<and>
    f = (case fn' of None \<Rightarrow> fn (h e) (rvType rv) | Some g \<Rightarrow> g) \<and>
    fe f = Fe_kChan \<and> \<not> addrE f \<and> chandir (ti f) AND 1 = 0 \<longrightarrow>
      encodeValue (Suc n) R rvp rv fn' e = Some (Panic SendOnlyChannel e))"
  by (auto simp: kChan_def errorf_def encodeValue.simps encodeValue_body_def
        encodeValue_call_def callFe_def simp del: and_one_eq split: option.splits)

theorem kChan_sendonly_fails_witness:
  "encodeValue (Suc 0) (stdRuntime noMem) None
     (RV (TChan 2 (TBasic KInt)) False (DChan [RV (TBasic KInt) False (DInt 7)] False)) None exEncoder
     = Some (Panic SendOnlyChannel exEncoder)"
  using kChan_sendonly_fails [of "stdFn stdTypeInfo (TChan 2 (TBasic KInt))" undefined
      "RV (TChan 2 (TBasic KInt)) False (DChan [RV (TBasic KInt) False (DInt 7)] False)" exEncoder
      None 0 "stdRuntime noMem" None]
  by (simp add: stdFn_def timeTyp_def stdTypeInfo_def rvIsNil_def)

section \<open>Byte slices at the entry point\<close>

text \<open>
  Claim C10. \<open>encode\<close> on a non-nil pointer to a byte slice emits nil when the slice
  pointed to is nil, and the raw byte string otherwise, also when it is empty; a byte slice
  passed directly is emitted as a raw byte string when it is not nil and as nil when it is,
  so the nil slice encodes the same way behind a pointer and directly.
\<close>

theorem encode_ptr_bytes:
  "encode (Suc n) R (Some (TPtr uint8SliceTyp, DPtr p)) e =
     (if rvIsNil (mem R p) then ok (emit EncodeNil e)
      else ok (emit (EncodeStringBytesRaw (rvGetBytes (mem R p))) e)) \<and>
   (mem R p = RV uint8SliceTyp a (DSeq xs) \<longrightarrow>
      encode (Suc n) R (Some (TPtr uint8SliceTyp, DPtr p)) e =
        ok (emit (EncodeStringBytesRaw (Some (map rvGetUint xs))) e)) \<and>
   encode (Suc n) R (Some (uint8SliceTyp, DSeq xs)) e =
     ok (emit (EncodeStringBytesRaw (Some (map rvGetUint xs))) e) \<and>
   encode (Suc n) R (Some (uint8SliceTyp, DNil)) e = ok (emit EncodeNil e) \<and>
   (rvIsNil (mem R p) \<longrightarrow>
      encode (Suc n) R (Some (TPtr uint8SliceTyp, DPtr p)) e =
      encode (Suc n) R (Some (uint8SliceTyp, DNil)) e)"
  by (simp add: encode.simps encode_body_def isNil_def valueOf_def rvIsNil_def
        encode_switch_def uint8SliceTyp_def rawTyp_def reflectValueTyp_def timeTyp_def Let_def)

theorem encode_ptr_bytes_witness:
  "encode (Suc 0) (stdRuntime exMem) (Some (TPtr uint8SliceTyp, DPtr 1)) exEncoder
     = Some (Ok (emit EncodeNil exEncoder)) \<and>
   encode (Suc 0) (stdRuntime exMem) (Some (TPtr uint8SliceTyp, DPtr 2)) exEncoder
     = Some (Ok (emit (EncodeStringBytesRaw (Some [])) exEncoder)) \<and>
   encode (Suc 0) (stdRuntime exMem) (Some (uint8SliceTyp, DNil)) exEncoder
     = Some (Ok (emit EncodeNil exEncoder))"
  using encode_ptr_bytes [of 0 "stdRuntime exMem" 1 exEncoder True "[]" ]
    encode_ptr_bytes [of 0 "stdRuntime exMem" 2 exEncoder True "[]"]
  by (simp add: stdRuntime_def exMem_def rvIsNil_def ok_def)

section \<open>Structs in array mode\<close>

lemma fillArray_spec:
  "i + length sis \<le> length fkvs \<Longrightarrow>
   \<exists>kv' fkvs'. kStruct_fillArray R recur rv (zip [i..<i + length sis] sis) (kv, fkvs) = Some (kv', fkvs')
      \<and> length fkvs' = length fkvs
      \<and> (\<forall>j<i. fkvs' ! j = fkvs ! j)
      \<and> (\<forall>j<length sis. kv_r (fkvs' ! (i + j)) = arrayFieldValue R recur rv (sis ! j))"
proof (induction sis arbitrary: i kv fkvs)
  case Nil
  then show ?case by simp
next
  case (Cons si sis)
  let ?kv = "kv\<lparr>kv_r := arrayFieldValue R recur rv si\<rparr>"
  have i: "i < length fkvs" using Cons.prems by simp
  have z: "zip [i..<i + length (si # sis)] (si # sis) = (i, si) # zip [Suc i..<Suc i + length sis] sis"
    by (simp add: upt_rec [of i] del: upt_Suc)
  have step: "kStruct_fillArray R recur rv (zip [i..<i + length (si # sis)] (si # sis)) (kv, fkvs)
     = kStruct_fillArray R recur rv (zip [Suc i..<Suc i + length sis] sis) (?kv, fkvs[i := ?kv])"
    unfolding z using i by (auto simp: arrayFieldValue_def nilKinds_def Let_def)
  have "Suc i + length sis \<le> length (fkvs[i := ?kv])" using Cons.prems by simp
  from Cons.IH [OF this, of ?kv] obtain kv' fkvs' where
    r: "kStruct_fillArray R recur rv (zip [Suc i..<Suc i + length sis] sis) (?kv, fkvs[i := ?kv]) = Some (kv', fkvs')"
    and l: "length fkvs' = length fkvs"
    and keep: "\<forall>j<Suc i. fkvs' ! j = fkvs[i := ?kv] ! j"
    and new: "\<forall>j<length sis. kv_r (fkvs' ! (Suc i + j)) = arrayFieldValue R recur rv (sis ! j)"
    by auto
  have a: "\<forall>j<i. fkvs' ! j = fkvs ! j" using keep by auto
  have b: "\<forall>j<length (si # sis). kv_r (fkvs' ! (i + j)) = arrayFieldValue R recur rv ((si # sis) ! j)"
  proof (intro allI impI)
    fix j assume "j < length (si # sis)"
    show "kv_r (fkvs' ! (i + j)) = arrayFieldValue R recur rv ((si # sis) ! j)"
    proof (cases j)
      case 0
      then show ?thesis using keep i by simp
    next
      case (Suc j')
      then show ?thesis using new \<open>j < length (si # sis)\<close> by simp
    qed
  qed
  show ?case using step r l a b by simp
qed

text \<open>
  Claim C3. A struct encoded in array mode (the option \<open>StructToArray\<close> or the type's own
  \<open>toArray\<close>, and no missing-fields method) starts an array of as many elements as the
  type has declared fields and encodes one value for each field, in declaration order,
  whatever the omit-empty flags: an empty omit-empty field of a struct, interface, pointer,
  array, map or slice kind as the zero Value, for which \<open>encodeValue\<close> emits nil, and any
  other field, an empty primitive too, as its own value.
\<close>

theorem kStruct_array_mode:
  assumes "toArray (ti f) \<or> StructToArray (h e)"
    and "\<not> flagMissingFielder (ti f)" and "\<not> flagMissingFielderPtr (ti f)"
  shows "kStruct ev en R f rv e =
     andThen
       (forEach (\<lambda>si e'. ev (arrayFieldValue R (RecursiveEmptyCheck (h e)) rv si) None (arrayElem e'))
          (sfiSrc (ti f)) (arrayStart (length (sfiSrc (ti f))) e))
       (\<lambda>e. ok (arrayEnd e)) \<and>
     encodeValue (Suc n) R rvp RVInvalid fn' e = ok (emit EncodeNil e)"
proof -
  let ?sis = "sfiSrc (ti f)" and ?recur = "RecursiveEmptyCheck (h e)"
  let ?fk = "replicate (length ?sis) sfiRv0"
  have "0 + length ?sis \<le> length ?fk" by simp
  from fillArray_spec [OF this, of R ?recur rv sfiRv0] obtain kv' fkvs' where
    r: "kStruct_fillArray R ?recur rv (zip [0..<length ?sis] ?sis) (sfiRv0, ?fk) = Some (kv', fkvs')"
    and l: "length fkvs' = length ?sis"
    and new: "\<forall>j<length ?sis. kv_r (fkvs' ! j) = arrayFieldValue R ?recur rv (?sis ! j)"
    by auto
  have m: "map kv_r fkvs' = map (arrayFieldValue R ?recur rv) ?sis"
    using l new by (simp add: list_eq_iff_nth_eq)
  have loop: "forEach (\<lambda>j e. ev (kv_r (fkvs' ! j)) None (arrayElem e)) [0..<length ?sis] e'
      = forEach (\<lambda>si e. ev (arrayFieldValue R ?recur rv si) None (arrayElem e)) ?sis e'" for e'
  proof -
    have "forEach (\<lambda>j e. ev (kv_r (fkvs' ! j)) None (arrayElem e)) [0..<length ?sis] e'
       = forEach (\<lambda>j e. ev (map kv_r fkvs' ! j) None (arrayElem e)) [0..<length ?sis] e'"
      by (rule forEach_cong) (simp add: l)
    also have "\<dots> = forEach (\<lambda>x e. ev x None (arrayElem e)) (map kv_r fkvs') e'"
      using forEach_nth_map [of "map kv_r fkvs'" "length ?sis" "\<lambda>x e. ev x None (arrayElem e)" e'] l
      by simp
    also have "\<dots> = forEach (\<lambda>si e. ev (arrayFieldValue R ?recur rv si) None (arrayElem e)) ?sis e'"
      by (simp only: m forEach_map)
    finally show ?thesis .
  qed
  have nil: "encodeValue (Suc n) R rvp RVInvalid fn' e = ok (emit EncodeNil e)"
    by (simp add: encodeValue.simps encodeValue_body_def)
  show ?thesis using assms nil
    by (simp add: kStruct_def kStruct_mf_def Let_def r loop)
qed

theorem kStruct_array_mode_witness:
  "kStruct (encodeValue (Suc 0) (stdRuntime noMem) None) (encode (Suc 0) (stdRuntime noMem))
     (stdRuntime noMem) (stdFn exTypeInfos (TStruct ''T'')) exStruct
     (newEncoder ((stdHandle exTypeInfos)\<lparr>StructToArray := True\<rparr>))
   = Some (Ok ((newEncoder ((stdHandle exTypeInfos)\<lparr>StructToArray := True\<rparr>))
        \<lparr>trace := [WriteArrayStart 3, EncodeInt 0, EncodeString ''x'', EncodeNil, WriteArrayEnd]\<rparr>))"
  using kStruct_array_mode [of "stdFn exTypeInfos (TStruct ''T'')"
      "newEncoder ((stdHandle exTypeInfos)\<lparr>StructToArray := True\<rparr>)"
      "encodeValue (Suc 0) (stdRuntime noMem) None" "encode (Suc 0) (stdRuntime noMem)"
      "stdRuntime noMem" exStruct 0 None None]
  by (simp add: run_simps exTypeInfos_def exStruct_def exFieldA_def exFieldB_def exFieldP_def
        arrayFieldValue_def field_def stdIsEmptyValue_def)

section \<open>Structs in map mode\<close>

lemma sfiRv_set: "(kv::sfiRv)\<lparr>kv_r := a, kv_v := b\<rparr> = \<lparr>kv_v = b, kv_r = a\<rparr>"
  by (cases kv) simp

lemma fill_spec:
  "nl + length (retainedFields R recur rv sis) \<le> length fkvs \<Longrightarrow>
   \<exists>kv' fkvs'. kStruct_fill R recur rv sis (kv, fkvs, nl)
        = Some (kv', fkvs', nl + length (retainedFields R recur rv sis))
      \<and> length fkvs' = length fkvs
      \<and> (\<forall>j<nl. fkvs' ! j = fkvs ! j)
      \<and> (\<forall>j<length (retainedFields R recur rv sis).
            fkvs' ! (nl + j) = filled rv (retainedFields R recur rv sis ! j))"
proof (induction sis arbitrary: nl kv fkvs)
  case Nil
  then show ?case by (simp add: retainedFields_def)
next
  case (Cons si sis)
  let ?ret = "retainedFields R recur rv"
  show ?case
  proof (cases "omitEmpty si \<and> isEmptyValue R (field si rv) recur")
    case True
    then have eq: "?ret (si # sis) = ?ret sis" by (simp add: retainedFields_def)
    have step: "kStruct_fill R recur rv (si # sis) (kv, fkvs, nl)
       = kStruct_fill R recur rv sis (kv\<lparr>kv_r := field si rv\<rparr>, fkvs, nl)"
      using True by (simp add: Let_def)
    from Cons.prems have "nl + length (?ret sis) \<le> length fkvs" by (simp add: eq)
    from Cons.IH [OF this, of "kv\<lparr>kv_r := field si rv\<rparr>"] show ?thesis
      by (simp only: step eq)
  next
    case False
    then have eq: "?ret (si # sis) = si # ?ret sis" by (auto simp: retainedFields_def)
    let ?kv = "filled rv si"
    have nl: "nl < length fkvs" using Cons.prems by (simp add: eq)
    have step: "kStruct_fill R recur rv (si # sis) (kv, fkvs, nl)
       = kStruct_fill R recur rv sis (?kv, fkvs[nl := ?kv], Suc nl)"
      using False nl by (auto simp: Let_def filled_def sfiRv_set)
    from Cons.prems have "Suc nl + length (?ret sis) \<le> length (fkvs[nl := ?kv])"
      by (simp add: eq)
    from Cons.IH [OF this, of ?kv] obtain kv' fkvs' where
      r: "kStruct_fill R recur rv sis (?kv, fkvs[nl := ?kv], Suc nl)
            = Some (kv', fkvs', Suc nl + length (?ret sis))"
      and l: "length fkvs' = length fkvs"
      and keep: "\<forall>j<Suc nl. fkvs' ! j = fkvs[nl := ?kv] ! j"
      and new: "\<forall>j<length (?ret sis). fkvs' ! (Suc nl + j) = filled rv (?ret sis ! j)"
      by auto
    have a: "\<forall>j<nl. fkvs' ! j = fkvs ! j" using keep by auto
    have b: "\<forall>j<length (?ret (si # sis)). fkvs' ! (nl + j) = filled rv (?ret (si # sis) ! j)"
    proof (intro allI impI)
      fix j assume j: "j < length (?ret (si # sis))"
      show "fkvs' ! (nl + j) = filled rv (?ret (si # sis) ! j)"
      proof (cases j)
        case 0
        then show ?thesis using keep nl by (simp add: eq)
      next
        case (Suc j')
        then show ?thesis using new j by (simp add: eq)
      qed
    qed
    show ?thesis using step r l a b by (simp add: eq)
  qed
qed

text \<open>
  Claim C4. A struct encoded in map mode (not in array mode, or with a missing-fields
  method) encodes, between the start of a map and its end, a key and then a value for each
  field that is retained, that is for each field but those whose omit-if-empty flag is
  set and whose value \<open>isEmptyValue\<close> finds empty, shallowly or recursively as
  \<open>RecursiveEmptyCheck\<close> says; the fields come in the sorted order of the type when
  \<open>Canonical\<close> is set and in declaration order otherwise; the key is the declared name of
  the field. The extra fields of a missing-fields method follow. The two field lists of
  the type are taken to have the same length.
\<close>

theorem kStruct_map_mode:
  assumes mode: "\<not> (toArray (ti f) \<or> StructToArray (h e)) \<or> flagMissingFielder (ti f)
      \<or> flagMissingFielderPtr (ti f)"
    and len: "length (sfiSort (ti f)) = length (sfiSrc (ti f))"
  shows "kStruct ev en R f rv e =
     (let recur = RecursiveEmptyCheck (h e);
          retained = retainedFields R recur rv
            (if Canonical (h e) then sfiSort (ti f) else sfiSrc (ti f));
          extra = extraFields R recur (infoFieldOmitempty (ti f)) (kStruct_mf R f rv)
      in andThen
           (forEach (\<lambda>si e'.
               andThen (kStructFieldKey R (keyType (ti f)) (encNameAsciiAlphaNum si) (encName si)
                          (mapElemKey e'))
                 (\<lambda>e'. ev (field si rv) None (mapElemValue e')))
              retained (mapStart (length retained + length extra) e))
           (\<lambda>e'. andThen
              (forEach (\<lambda>(k, v) e'.
                  andThen (kStructFieldKey R (keyType (ti f)) False k (mapElemKey e'))
                    (\<lambda>e'. en v (mapElemValue e')))
                 extra e')
              (\<lambda>e'. ok (mapEnd e'))))"
proof -
  let ?recur = "RecursiveEmptyCheck (h e)"
  let ?sis = "kStructSfi e f"
  let ?ret = "retainedFields R ?recur rv ?sis"
  let ?mf = "kStruct_mf R f rv"
  let ?fk = "replicate (length ?mf + length (sfiSrc (ti f))) sfiRv0"
  have "length ?ret \<le> length ?sis" by (simp add: retainedFields_def)
  also have "\<dots> = length (sfiSrc (ti f))" using len by (simp add: kStructSfi_def)
  finally have "0 + length ?ret \<le> length ?fk" by simp
  from fill_spec [OF this, of sfiRv0] obtain kv' fkvs' where
    r: "kStruct_fill R ?recur rv ?sis (sfiRv0, ?fk, 0) = Some (kv', fkvs', length ?ret)"
    and new: "\<forall>j<length ?ret. fkvs' ! j = filled rv (?ret ! j)"
    by auto
  let ?B = "\<lambda>kv e'. case kv_v kv of
        None \<Rightarrow> errorf (RuntimePanic ''nil pointer dereference'') (mapElemKey e')
      | Some si \<Rightarrow>
          andThen (kStructFieldKey R (keyType (ti f)) (encNameAsciiAlphaNum si) (encName si)
                     (mapElemKey e'))
            (\<lambda>e'. ev (kv_r kv) None (mapElemValue e'))"
  have loop: "forEach (\<lambda>j. ?B (fkvs' ! j)) [0..<length ?ret] e'
      = forEach (\<lambda>si e'.
               andThen (kStructFieldKey R (keyType (ti f)) (encNameAsciiAlphaNum si) (encName si)
                          (mapElemKey e'))
                 (\<lambda>e'. ev (field si rv) None (mapElemValue e'))) ?ret e'" for e'
  proof -
    have "forEach (\<lambda>j. ?B (fkvs' ! j)) [0..<length ?ret] e'
       = forEach (\<lambda>j. ?B (map (filled rv) ?ret ! j)) [0..<length ?ret] e'"
      by (rule forEach_cong) (simp add: new filled_def)
    also have "\<dots> = forEach ?B (map (filled rv) ?ret) e'"
      using forEach_nth_map [of "map (filled rv) ?ret" "length ?ret" ?B e'] by simp
    also have "\<dots> = forEach (\<lambda>si e'.
               andThen (kStructFieldKey R (keyType (ti f)) (encNameAsciiAlphaNum si) (encName si)
                          (mapElemKey e'))
                 (\<lambda>e'. ev (field si rv) None (mapElemValue e'))) ?ret e'"
      by (simp add: forEach_map filled_def)
    finally show ?thesis .
  qed
  have ex: "filter (\<lambda>(k, v). \<not> (k = [] \<or>
               (infoFieldOmitempty (ti f) \<and> isEmptyValue R (valueOfIval v) ?recur))) ?mf
      = extraFields R ?recur (infoFieldOmitempty (ti f)) ?mf"
    by (simp add: extraFields_def)
  have mode': "(\<not> (toArray (ti f) \<or> StructToArray (h e)) \<or> flagMissingFielder (ti f)
      \<or> flagMissingFielderPtr (ti f)) = True" using mode by simp
  show ?thesis
    unfolding kStruct_def Let_def mode' if_True r option.case prod.case ex
    by (simp only: loop) (simp add: kStructSfi_def)
qed

theorem kStruct_map_mode_witness:
  "kStruct (encodeValue (Suc 0) (stdRuntime noMem) None) (encode (Suc 0) (stdRuntime noMem))
     (stdRuntime noMem) (stdFn exTypeInfos (TStruct ''T'')) exStruct (newEncoder (stdHandle exTypeInfos))
   = Some (Ok ((newEncoder (stdHandle exTypeInfos))
        \<lparr>trace := [WriteMapStart 1, EncodeString ''a'', EncodeString ''x'', WriteMapEnd]\<rparr>))"
  using kStruct_map_mode [of "stdFn exTypeInfos (TStruct ''T'')" "newEncoder (stdHandle exTypeInfos)"
      "encodeValue (Suc 0) (stdRuntime noMem) None" "encode (Suc 0) (stdRuntime noMem)"
      "stdRuntime noMem" exStruct]
  by (simp add: run_simps exTypeInfos_def exStruct_def exFieldA_def exFieldB_def exFieldP_def
        retainedFields_def extraFields_def kStruct_mf_def field_def stdIsEmptyValue_def
        kStructFieldKey_def encStructFieldKey_def)

section \<open>Maps in canonical order\<close>

lemma insort_key_map_pair:
  "insort_key snd (k, f k) (map (\<lambda>k. (k, f k)) ys) = map (\<lambda>k. (k, f k)) (insort_key f k ys)"
  by (induction ys) simp_all

lemma sort_Sort_map_pair:
  "sort_Sort (map (\<lambda>k. (k, f k)) mks) = map (\<lambda>k. (k, f k)) (sort_key f mks)"
  by (induction mks) (simp_all add: sort_Sort_def insort_key_map_pair)

lemma canonical_natural:
  "canonicalRun ev rv valFn f (\<lambda>k. keyOp (f k)) e
     (forEach (\<lambda>kv e'. ev (mapGet rv (fst kv)) valFn
                 (mapElemValue (emit (keyOp (snd kv)) (mapElemKey e'))))
        (sort_Sort (map (\<lambda>k. (k, f k)) (rvMapKeys rv))) e)"
  unfolding canonicalRun_def
  by (rule exI [of _ "sort_key f (rvMapKeys rv)"])
     (simp add: sort_Sort_map_pair forEach_map)

lemma kMapCanonical_keys_fst:
  "kMapCanonical_keys me R ks e2 acc = Some (Inr mksbv) \<Longrightarrow> map fst mksbv = map fst acc @ ks"
proof (induction ks arbitrary: e2 acc)
  case Nil
  then show ?case by simp
next
  case (Cons k ks)
  then show ?case
    by (auto simp: Let_def split: option.splits outcome.splits)
qed

lemma canonical_bytes:
  "map fst mksbv = rvMapKeys rv \<Longrightarrow>
   canonicalRunBytes ev rv valFn mksbv e
     (forEach (\<lambda>kv e'. ev (mapGet rv (fst kv)) valFn
                 (mapElemValue (emit (Writeb (snd kv)) (mapElemKey e'))))
        (sort_Sort mksbv) e)"
  unfolding canonicalRunBytes_def
  by (intro conjI exI [of _ "sort_key snd mksbv"]) (simp_all add: sort_Sort_def)

text \<open>
  Claim C2. With the option \<open>Canonical\<close>, \<open>kMap\<close> encodes a map that is not empty as
  the start of the map, \<open>kMapCanonical\<close>, and the end of the map. \<open>kMapCanonical\<close> takes
  all the keys first and encodes the entries in an order of the keys that is sorted: by
  the boolean (false before true), by the number for the integer, unsigned and float
  kinds, by the lexicographic order of the bytes for strings, by the instant for
  timestamps. For any other key kind each key is first encoded by \<open>MustEncode\<close> on a fresh
  encoder of the same handle, and the entries are encoded in an order sorted by the bytes
  the keys were encoded to, compared lexicographically; those bytes are written in place
  of the key.
\<close>

theorem kMapCanonical_sorted:
  "(Canonical (h e) \<and> rvLenMap rv \<noteq> 0 \<longrightarrow>
      kMap ev me R f rv e =
        andThen
          (kMapCanonical ev me R (ti f) rv
             (if rtKind (ptrBase (elem (ti f))) \<noteq> KInterface
              then Some (fn (h e) (ptrBase (elem (ti f)))) else None)
             (mapStart (rvLenMap rv) e))
          (\<lambda>e'. ok (mapEnd e'))) \<and>
   (rtKind (key tinfo) = KBool \<longrightarrow>
      canonicalRun ev rv valFn rvGetBool (\<lambda>k. EncodeBool (rvGetBool k)) e
        (kMapCanonical ev me R tinfo rv valFn e)) \<and>
   (rtKind (key tinfo) = KString \<longrightarrow>
      canonicalRun ev rv valFn rvGetString (\<lambda>k. EncodeString (rvGetString k)) e
        (kMapCanonical ev me R tinfo rv valFn e)) \<and>
   (rtKind (key tinfo) \<in> {KUint8, KUint16, KUint32, KUint64, KUint, KUintptr} \<longrightarrow>
      canonicalRun ev rv valFn rvGetUint (\<lambda>k. EncodeUint (rvGetUint k)) e
        (kMapCanonical ev me R tinfo rv valFn e)) \<and>
   (rtKind (key tinfo) \<in> {KInt8, KInt16, KInt32, KInt64, KInt} \<longrightarrow>
      canonicalRun ev rv valFn rvGetInt (\<lambda>k. EncodeInt (rvGetInt k)) e
        (kMapCanonical ev me R tinfo rv valFn e)) \<and>
   (rtKind (key tinfo) = KFloat32 \<longrightarrow>
      canonicalRun ev rv valFn rvGetFloat (\<lambda>k. EncodeFloat32 (rvGetFloat k)) e
        (kMapCanonical ev me R tinfo rv valFn e)) \<and>
   (rtKind (key tinfo) = KFloat64 \<longrightarrow>
      canonicalRun ev rv valFn rvGetFloat (\<lambda>k. EncodeFloat64 (rvGetFloat k)) e
        (kMapCanonical ev me R tinfo rv valFn e)) \<and>
   (key tinfo = timeTyp \<longrightarrow>
      canonicalRun ev rv valFn rvGetTime (\<lambda>k. EncodeTime (rvGetTime k)) e
        (kMapCanonical ev me R tinfo rv valFn e)) \<and>
   (rtKind (key tinfo) \<notin> naturalKinds \<and> key tinfo \<noteq> timeTyp \<longrightarrow>
      (case kMapCanonical_keys me R (rvMapKeys rv) (NewEncoderBytes e) [] of
         None \<Rightarrow> kMapCanonical ev me R tinfo rv valFn e = None
       | Some (Inl x) \<Rightarrow> kMapCanonical ev me R tinfo rv valFn e = Some (Panic x e)
       | Some (Inr mksbv) \<Rightarrow>
           canonicalRunBytes ev rv valFn mksbv e (kMapCanonical ev me R tinfo rv valFn e)))"
proof (intro conjI impI)
  assume "Canonical (h e) \<and> rvLenMap rv \<noteq> 0"
  then show "kMap ev me R f rv e =
        andThen
          (kMapCanonical ev me R (ti f) rv
             (if rtKind (ptrBase (elem (ti f))) \<noteq> KInterface
              then Some (fn (h e) (ptrBase (elem (ti f)))) else None)
             (mapStart (rvLenMap rv) e))
          (\<lambda>e'. ok (mapEnd e'))"
    by (simp add: kMap_def Let_def)
next
  assume "rtKind (key tinfo) = KBool"
  then show "canonicalRun ev rv valFn rvGetBool (\<lambda>k. EncodeBool (rvGetBool k)) e
        (kMapCanonical ev me R tinfo rv valFn e)"
    using canonical_natural [of ev rv valFn rvGetBool EncodeBool e]
    by (simp add: kMapCanonical_def Let_def)
next
  assume "rtKind (key tinfo) = KString"
  then show "canonicalRun ev rv valFn rvGetString (\<lambda>k. EncodeString (rvGetString k)) e
        (kMapCanonical ev me R tinfo rv valFn e)"
    using canonical_natural [of ev rv valFn rvGetString EncodeString e]
    by (simp add: kMapCanonical_def Let_def)
next
  assume "rtKind (key tinfo) \<in> {KUint8, KUint16, KUint32, KUint64, KUint, KUintptr}"
  then show "canonicalRun ev rv valFn rvGetUint (\<lambda>k. EncodeUint (rvGetUint k)) e
        (kMapCanonical ev me R tinfo rv valFn e)"
    using canonical_natural [of ev rv valFn rvGetUint EncodeUint e]
    by (auto simp: kMapCanonical_def Let_def)
next
  assume "rtKind (key tinfo) \<in> {KInt8, KInt16, KInt32, KInt64, KInt}"
  then show "canonicalRun ev rv valFn rvGetInt (\<lambda>k. EncodeInt (rvGetInt k)) e
        (kMapCanonical ev me R tinfo rv valFn e)"
    using canonical_natural [of ev rv valFn rvGetInt EncodeInt e]
    by (auto simp: kMapCanonical_def Let_def)
next
  assume "rtKind (key tinfo) = KFloat32"
  then show "canonicalRun ev rv valFn rvGetFloat (\<lambda>k. EncodeFloat32 (rvGetFloat k)) e
        (kMapCanonical ev me R tinfo rv valFn e)"
    using canonical_natural [of ev rv valFn rvGetFloat EncodeFloat32 e]
    by (simp add: kMapCanonical_def Let_def)
next
  assume "rtKind (key tinfo) = KFloat64"
  then show "canonicalRun ev rv valFn rvGetFloat (\<lambda>k. EncodeFloat64 (rvGetFloat k)) e
        (kMapCanonical ev me R tinfo rv valFn e)"
    using canonical_natural [of ev rv valFn rvGetFloat EncodeFloat64 e]
    by (simp add: kMapCanonical_def Let_def)
next
  assume "key tinfo = timeTyp"
  then show "canonicalRun ev rv valFn rvGetTime (\<lambda>k. EncodeTime (rvGetTime k)) e
        (kMapCanonical ev me R tinfo rv valFn e)"
    using canonical_natural [of ev rv valFn rvGetTime EncodeTime e]
    by (simp add: kMapCanonical_def Let_def timeTyp_def)
next
  assume a: "rtKind (key tinfo) \<notin> naturalKinds \<and> key tinfo \<noteq> timeTyp"
  show "case kMapCanonical_keys me R (rvMapKeys rv) (NewEncoderBytes e) [] of
         None \<Rightarrow> kMapCanonical ev me R tinfo rv valFn e = None
       | Some (Inl x) \<Rightarrow> kMapCanonical ev me R tinfo rv valFn e = Some (Panic x e)
       | Some (Inr mksbv) \<Rightarrow>
           canonicalRunBytes ev rv valFn mksbv e (kMapCanonical ev me R tinfo rv valFn e)"
  proof (cases "kMapCanonical_keys me R (rvMapKeys rv) (NewEncoderBytes e) []")
    case None
    then show ?thesis using a by (simp add: kMapCanonical_def Let_def naturalKinds_def)
  next
    case (Some r)
    show ?thesis
    proof (cases r)
      case (Inl x)
      then show ?thesis using a Some by (simp add: kMapCanonical_def Let_def naturalKinds_def)
    next
      case (Inr mksbv)
      from kMapCanonical_keys_fst [of me R "rvMapKeys rv" "NewEncoderBytes e" "[]" mksbv] Some Inr
      have "map fst mksbv = rvMapKeys rv" by simp
      from canonical_bytes [OF this, of ev valFn e] show ?thesis using a Some Inr
        by (simp add: kMapCanonical_def Let_def naturalKinds_def)
    qed
  qed
qed

theorem kMapCanonical_sorted_witness:
  "kMap (encodeValue (Suc 0) (stdRuntime noMem) None) (MustEncode 0 (stdRuntime noMem))
      (stdRuntime noMem) (stdFn stdTypeInfo (TMap (TBasic KInt) (TBasic KString))) exMap
      (newEncoder canonicalHandle)
    = Some (Ok ((newEncoder canonicalHandle)
        \<lparr>trace := [WriteMapStart 3, EncodeInt 1, EncodeString ''a'', EncodeInt 2,
                   EncodeString ''b'', EncodeInt 3, EncodeString ''c'', WriteMapEnd]\<rparr>)) \<and>
   canonicalRun (encodeValue (Suc 0) (stdRuntime noMem) None) exMap None rvGetInt
      (\<lambda>k. EncodeInt (rvGetInt k)) (newEncoder canonicalHandle)
      (kMapCanonical (encodeValue (Suc 0) (stdRuntime noMem) None) (MustEncode 0 (stdRuntime noMem))
         (stdRuntime noMem) (stdTypeInfo (TMap (TBasic KInt) (TBasic KString))) exMap None
         (newEncoder canonicalHandle)) \<and>
   kMap (encodeValue (Suc 0) (stdRuntime noMem) None)
      (MustEncode (Suc (Suc (Suc (Suc 0)))) (stdRuntime noMem))
      (stdRuntime noMem) (stdFn stdTypeInfo (TMap TInterface (TBasic KString))) exMapIface
      (newEncoder canonicalHandle)
    = Some (Ok ((newEncoder canonicalHandle)
        \<lparr>trace := [WriteMapStart 2, Writeb [4], EncodeString ''y'', Writeb [9],
                   EncodeString ''z'', WriteMapEnd]\<rparr>))"
proof -
  have a: "Canonical (h (newEncoder canonicalHandle)) \<and> rvLenMap exMap \<noteq> 0"
    by (simp add: newEncoder_def exMap_def rvLenMap_def)
  have b: "rtKind (key (stdTypeInfo (TMap (TBasic KInt) (TBasic KString))))
             \<in> {KInt8, KInt16, KInt32, KInt64, KInt}"
    by (simp add: stdTypeInfo_def)
  have c: "Canonical (h (newEncoder canonicalHandle)) \<and> rvLenMap exMapIface \<noteq> 0"
    by (simp add: newEncoder_def exMapIface_def rvLenMap_def)
  note t1 = kMapCanonical_sorted [of "newEncoder canonicalHandle" exMap
      "encodeValue (Suc 0) (stdRuntime noMem) None" "MustEncode 0 (stdRuntime noMem)"
      "stdRuntime noMem" "stdFn stdTypeInfo (TMap (TBasic KInt) (TBasic KString))"
      "stdTypeInfo (TMap (TBasic KInt) (TBasic KString))" None]
  note t2 = kMapCanonical_sorted [of "newEncoder canonicalHandle" exMapIface
      "encodeValue (Suc 0) (stdRuntime noMem) None"
      "MustEncode (Suc (Suc (Suc (Suc 0)))) (stdRuntime noMem)"
      "stdRuntime noMem" "stdFn stdTypeInfo (TMap TInterface (TBasic KString))"
      "stdTypeInfo (TMap TInterface (TBasic KString))" None]
  from t1 a have k1: "kMap (encodeValue (Suc 0) (stdRuntime noMem) None) (MustEncode 0 (stdRuntime noMem))
      (stdRuntime noMem) (stdFn stdTypeInfo (TMap (TBasic KInt) (TBasic KString))) exMap
      (newEncoder canonicalHandle)
    = andThen
          (kMapCanonical (encodeValue (Suc 0) (stdRuntime noMem) None) (MustEncode 0 (stdRuntime noMem))
             (stdRuntime noMem) (ti (stdFn stdTypeInfo (TMap (TBasic KInt) (TBasic KString)))) exMap
             (if rtKind (ptrBase (elem (ti (stdFn stdTypeInfo (TMap (TBasic KInt) (TBasic KString))))))
                   \<noteq> KInterface
              then Some (fn (h (newEncoder canonicalHandle))
                     (ptrBase (elem (ti (stdFn stdTypeInfo (TMap (TBasic KInt) (TBasic KString)))))))
              else None)
             (mapStart (rvLenMap exMap) (newEncoder canonicalHandle)))
          (\<lambda>e'. ok (mapEnd e'))" by blast
  from t1 b have k2: "canonicalRun (encodeValue (Suc 0) (stdRuntime noMem) None) exMap None rvGetInt
      (\<lambda>k. EncodeInt (rvGetInt k)) (newEncoder canonicalHandle)
      (kMapCanonical (encodeValue (Suc 0) (stdRuntime noMem) None) (MustEncode 0 (stdRuntime noMem))
         (stdRuntime noMem) (stdTypeInfo (TMap (TBasic KInt) (TBasic KString))) exMap None
         (newEncoder canonicalHandle))" by blast
  from t2 c have k3: "kMap (encodeValue (Suc 0) (stdRuntime noMem) None)
      (MustEncode (Suc (Suc (Suc (Suc 0)))) (stdRuntime noMem))
      (stdRuntime noMem) (stdFn stdTypeInfo (TMap TInterface (TBasic KString))) exMapIface
      (newEncoder canonicalHandle)
    = andThen
          (kMapCanonical (encodeValue (Suc 0) (stdRuntime noMem) None)
             (MustEncode (Suc (Suc (Suc (Suc 0)))) (stdRuntime noMem))
             (stdRuntime noMem) (ti (stdFn stdTypeInfo (TMap TInterface (TBasic KString)))) exMapIface
             (if rtKind (ptrBase (elem (ti (stdFn stdTypeInfo (TMap TInterface (TBasic KString))))))
                   \<noteq> KInterface
              then Some (fn (h (newEncoder canonicalHandle))
                     (ptrBase (elem (ti (stdFn stdTypeInfo (TMap TInterface (TBasic KString)))))))
              else None)
             (mapStart (rvLenMap exMapIface) (newEncoder canonicalHandle)))
          (\<lambda>e'. ok (mapEnd e'))" by blast
  have r1: "kMap (encodeValue (Suc 0) (stdRuntime noMem) None) (MustEncode 0 (stdRuntime noMem))
      (stdRuntime noMem) (stdFn stdTypeInfo (TMap (TBasic KInt) (TBasic KString))) exMap
      (newEncoder canonicalHandle)
    = Some (Ok ((newEncoder canonicalHandle)
        \<lparr>trace := [WriteMapStart 3, EncodeInt 1, EncodeString ''a'', EncodeInt 2,
                   EncodeString ''b'', EncodeInt 3, EncodeString ''c'', WriteMapEnd]\<rparr>))"
    unfolding k1
    by (simp add: kMapCanonical_def run_simps exMap_def rvLenMap_def rvMapKeys_def
      sort_Sort_def mapGet_def)
  have r3: "kMap (encodeValue (Suc 0) (stdRuntime noMem) None)
      (MustEncode (Suc (Suc (Suc (Suc 0)))) (stdRuntime noMem))
      (stdRuntime noMem) (stdFn stdTypeInfo (TMap TInterface (TBasic KString))) exMapIface
      (newEncoder canonicalHandle)
    = Some (Ok ((newEncoder canonicalHandle)
        \<lparr>trace := [WriteMapStart 2, Writeb [4], EncodeString ''y'', Writeb [9],
                   EncodeString ''z'', WriteMapEnd]\<rparr>))"
    unfolding k3
    by (simp add: kMapCanonical_def run_simps exMapIface_def rvLenMap_def rvMapKeys_def
      sort_Sort_def mapGet_def NewEncoderBytes_def MustEncode_body_def encode_body_def isNil_def
      valueOf_def encode_switch_def rawTyp_def reflectValueTyp_def)
  from r1 k2 r3 show ?thesis by blast
qed

section \<open>Properties kept by every handler\<close>

lemma runs_None [simp]: "runs Q e0 None"
  by (simp add: runs_def)

lemma runs_ok: "Q e0 (Ok e) \<Longrightarrow> runs Q e0 (ok e)"
  by (simp add: runs_def ok_def)

lemma runs_andThen:
  "runs Q e0 a \<Longrightarrow> (\<And>e1. Q e0 (Ok e1) \<Longrightarrow> runs Q e0 (f e1)) \<Longrightarrow> runs Q e0 (andThen a f)"
  by (cases "(a, f)" rule: andThen.cases) (auto simp: runs_def)

lemma runs_forEach:
  "Q e0 (Ok e) \<Longrightarrow> (\<And>x e1. x \<in> set xs \<Longrightarrow> Q e0 (Ok e1) \<Longrightarrow> runs Q e0 (body x e1)) \<Longrightarrow>
   runs Q e0 (forEach body xs e)"
proof (induction xs arbitrary: e)
  case Nil
  then show ?case by (simp add: runs_ok)
next
  case (Cons x xs)
  show ?case
    unfolding forEach.simps
  proof (rule runs_andThen)
    show "runs Q e0 (body x e)" using Cons.prems by simp
  next
    fix e1 assume "Q e0 (Ok e1)"
    then show "runs Q e0 (forEach body xs e1)" using Cons.IH Cons.prems(2) by simp
  qed
qed

lemma frameD:
  assumes "frame Q"
  shows frame_refl: "Q e (Ok e)"
    and frame_emit: "Q e0 (Ok e) \<Longrightarrow> x \<noteq> AtEndOfEncode \<Longrightarrow> x \<noteq> WriterEnd \<Longrightarrow> Q e0 (Ok (emit x e))"
    and frame_c: "Q e0 (Ok e) \<Longrightarrow> Q e0 (Ok (e\<lparr>c := s\<rparr>))"
    and frame_panic: "Q e0 (Ok e) \<Longrightarrow> Q e0 (Panic y e)"
    and frame_trans: "Q e0 (Ok e) \<Longrightarrow> Q e r \<Longrightarrow> Q e0 r"
    and frame_recover: "Q e0 (Panic y e) \<Longrightarrow> Q e0 (Ok (e\<lparr>err := Some y\<rparr>))"
    and frame_bracket_panic:
      "Q e0 (Ok e) \<Longrightarrow> Q (e\<lparr>ci := ci e @ [sp]\<rparr>) (Panic z e1) \<Longrightarrow> Q e0 (Panic z e1)"
    and frame_bracket_ok:
      "Q e0 (Ok e) \<Longrightarrow> Q (e\<lparr>ci := ci e @ [sp]\<rparr>) (Ok e1) \<Longrightarrow> Q e0 (popCi e1)"
proof -
  note f = assms [unfolded frame_def]
  note a1 = f [THEN conjunct1, rule_format]
  note a2 = f [THEN conjunct2, THEN conjunct1, rule_format]
  note a3 = f [THEN conjunct2, THEN conjunct2, THEN conjunct1, rule_format]
  note a4 = f [THEN conjunct2, THEN conjunct2, THEN conjunct2, THEN conjunct1, rule_format]
  note a5 = f [THEN conjunct2, THEN conjunct2, THEN conjunct2, THEN conjunct2, THEN conjunct1,
      rule_format]
  note a6 = f [THEN conjunct2, THEN conjunct2, THEN conjunct2, THEN conjunct2, THEN conjunct2,
      THEN conjunct1, rule_format]
  note a7 = f [THEN conjunct2, THEN conjunct2, THEN conjunct2, THEN conjunct2, THEN conjunct2,
      THEN conjunct2, THEN conjunct1, rule_format]
  note a8 = f [THEN conjunct2, THEN conjunct2, THEN conjunct2, THEN conjunct2, THEN conjunct2,
      THEN conjunct2, THEN conjunct2, rule_format]
  show "Q e (Ok e)" by (rule a1)
  show "Q e0 (Ok e) \<Longrightarrow> x \<noteq> AtEndOfEncode \<Longrightarrow> x \<noteq> WriterEnd \<Longrightarrow> Q e0 (Ok (emit x e))"
    by (rule a2)
  show "Q e0 (Ok e) \<Longrightarrow> Q e0 (Ok (e\<lparr>c := s\<rparr>))" by (rule a3)
  show "Q e0 (Ok e) \<Longrightarrow> Q e0 (Panic y e)" by (rule a4)
  show "Q e0 (Ok e) \<Longrightarrow> Q e r \<Longrightarrow> Q e0 r" by (rule a5)
  show "Q e0 (Panic y e) \<Longrightarrow> Q e0 (Ok (e\<lparr>err := Some y\<rparr>))" by (rule a6)
  show "Q e0 (Ok e) \<Longrightarrow> Q (e\<lparr>ci := ci e @ [sp]\<rparr>) (Panic z e1) \<Longrightarrow> Q e0 (Panic z e1)"
    by (rule a7)
  show "Q e0 (Ok e) \<Longrightarrow> Q (e\<lparr>ci := ci e @ [sp]\<rparr>) (Ok e1) \<Longrightarrow> Q e0 (popCi e1)"
    by (rule a8)
qed

lemma runs_panic:
  assumes fr: "frame Q" and e: "Q e0 (Ok e)"
  shows "runs Q e0 (Some (Panic x e))"
  using frame_panic [OF fr e] by (simp add: runs_def)

lemma runs_errorf:
  assumes fr: "frame Q" and e: "Q e0 (Ok e)"
  shows "runs Q e0 (errorf x e)"
  using frame_panic [OF fr e] by (simp add: runs_def errorf_def)

lemma runs_call:
  assumes fr: "frame Q" and m: "\<And>e r. m e = Some r \<Longrightarrow> Q e r" and e: "Q e0 (Ok e)"
  shows "runs Q e0 (m e)"
  unfolding runs_def
proof (intro allI impI)
  fix r assume "m e = Some r"
  then have "Q e r" by (rule m)
  with e show "Q e0 r" by (rule frame_trans [OF fr])
qed

lemma frame_steps:
  assumes fr: "frame Q" and e: "Q e0 (Ok e)"
  shows "Q e0 (Ok (mapStart l e))" "Q e0 (Ok (mapElemKey e))" "Q e0 (Ok (mapElemValue e))"
    "Q e0 (Ok (mapEnd e))" "Q e0 (Ok (arrayStart l e))" "Q e0 (Ok (arrayElem e))"
    "Q e0 (Ok (arrayEnd e))"
    "Q e0 (Ok (if b then mapElemKey e else mapElemValue e))"
  unfolding mapStart_def mapElemKey_def mapElemValue_def mapEnd_def arrayStart_def
      arrayElem_def arrayEnd_def
  by (simp_all add: frame_c [OF fr] frame_emit [OF fr] e)

lemma runs_recovered:
  assumes fr: "frame Q" and r: "runs Q e0 res"
  shows "runs Q e0 (recovered res)"
proof (cases res)
  case None
  then show ?thesis by (simp add: recovered_def)
next
  case (Some o1)
  then show ?thesis using r frame_recover [OF fr, of e0]
    by (cases o1) (auto simp: recovered_def runs_def)
qed

lemma kSliceW_runs:
  assumes fr: "frame Q" and ev: "\<And>rv fn' e. Q e0 (Ok e) \<Longrightarrow> runs Q e0 (ev rv fn' e)"
    and e: "Q e0 (Ok e)"
  shows "runs Q e0 (kSliceW ev rv tinfo e)"
proof -
  note st = frame_steps [OF fr]
  show ?thesis
    unfolding kSliceW_def Let_def
    by (intro runs_andThen runs_forEach runs_ok ev st e | simp split del: if_split
        | intro conjI impI | split if_split)+
qed

lemma kArrayW_runs:
  assumes fr: "frame Q" and ev: "\<And>rv fn' e. Q e0 (Ok e) \<Longrightarrow> runs Q e0 (ev rv fn' e)"
    and e: "Q e0 (Ok e)"
  shows "runs Q e0 (kArrayW ev rv tinfo e)"
proof -
  note st = frame_steps [OF fr]
  show ?thesis
    unfolding kArrayW_def Let_def
    by (intro runs_andThen runs_forEach runs_ok ev st e | simp split del: if_split
        | intro conjI impI | split if_split)+
qed

lemma haltOnMbsOddLen_runs:
  assumes fr: "frame Q" and e: "Q e0 (Ok e)"
  shows "runs Q e0 (haltOnMbsOddLen l e)"
  unfolding haltOnMbsOddLen_def
  using runs_errorf [OF fr e] runs_ok [of Q e0 e] e
  by (cases "l AND 1 \<noteq> 0") (simp_all del: and_one_eq)

lemma kSliceWMbs_runs:
  assumes fr: "frame Q" and ev: "\<And>rv fn' e. Q e0 (Ok e) \<Longrightarrow> runs Q e0 (ev rv fn' e)"
    and e: "Q e0 (Ok e)"
  shows "runs Q e0 (kSliceWMbs ev rv tinfo e)"
proof -
  note st = frame_steps [OF fr]
  show ?thesis
    unfolding kSliceWMbs_def Let_def
    by (intro runs_andThen runs_forEach runs_ok ev st e haltOnMbsOddLen_runs [OF fr]
        | split if_split | intro conjI impI | assumption)+
qed

lemma kArrayWMbs_runs:
  assumes fr: "frame Q" and ev: "\<And>rv fn' e. Q e0 (Ok e) \<Longrightarrow> runs Q e0 (ev rv fn' e)"
    and e: "Q e0 (Ok e)"
  shows "runs Q e0 (kArrayWMbs ev rv tinfo e)"
proof -
  note st = frame_steps [OF fr]
  show ?thesis
    unfolding kArrayWMbs_def Let_def
    by (intro runs_andThen runs_forEach runs_ok ev st e haltOnMbsOddLen_runs [OF fr]
        | split if_split | intro conjI impI | assumption)+
qed

lemma runs_emit:
  assumes fr: "frame Q" and e: "Q e0 (Ok e)" and x: "x \<noteq> AtEndOfEncode" "x \<noteq> WriterEnd"
  shows "runs Q e0 (ok (emit x e))"
  by (rule runs_ok) (rule frame_emit [OF fr e x])

lemma kSliceBytesChan_runs:
  assumes fr: "frame Q" and e: "Q e0 (Ok e)"
  shows "runs Q e0 (kSliceBytesChan rv e)"
  unfolding kSliceBytesChan_def Let_def
  by (intro runs_emit [OF fr e] runs_errorf [OF fr e] runs_None | split if_split
      | intro conjI impI | simp)+

lemma kChan_runs:
  assumes fr: "frame Q" and ev: "\<And>rv fn' e. Q e0 (Ok e) \<Longrightarrow> runs Q e0 (ev rv fn' e)"
    and e: "Q e0 (Ok e)"
  shows "runs Q e0 (kChan ev f rv e)"
  unfolding kChan_def Let_def
  by (intro runs_errorf [OF fr e] kSliceBytesChan_runs [OF fr e] kSliceWMbs_runs [OF fr ev e]
        kSliceW_runs [OF fr ev e] runs_None
      | split if_split option.split | intro conjI impI allI | assumption)+

lemma kSlice_runs:
  assumes fr: "frame Q" and ev: "\<And>rv fn' e. Q e0 (Ok e) \<Longrightarrow> runs Q e0 (ev rv fn' e)"
    and e: "Q e0 (Ok e)"
  shows "runs Q e0 (kSlice ev f rv e)"
  unfolding kSlice_def
  by (intro runs_emit [OF fr e] kSliceWMbs_runs [OF fr ev e]
        kSliceW_runs [OF fr ev e]
      | split if_split | intro conjI impI | assumption | simp)+

lemma kArray_runs:
  assumes fr: "frame Q" and ev: "\<And>rv fn' e. Q e0 (Ok e) \<Longrightarrow> runs Q e0 (ev rv fn' e)"
    and e: "Q e0 (Ok e)"
  shows "runs Q e0 (kArray ev f rv e)"
  unfolding kArray_def
  by (intro runs_emit [OF fr e] kArrayWMbs_runs [OF fr ev e]
        kArrayW_runs [OF fr ev e]
      | split if_split | intro conjI impI | assumption | simp)+

lemma kStructFieldKey_runs:
  assumes fr: "frame Q" and e: "Q e0 (Ok e)"
  shows "runs Q e0 (kStructFieldKey R kt a name e)"
  unfolding kStructFieldKey_def encStructFieldKey_def
  by (intro runs_emit [OF fr e] runs_errorf [OF fr e]
      | split if_split option.split | intro conjI impI allI | simp)+

lemma kStructNoOmitempty_runs:
  assumes fr: "frame Q" and ev: "\<And>rv fn' e. Q e0 (Ok e) \<Longrightarrow> runs Q e0 (ev rv fn' e)"
    and e: "Q e0 (Ok e)"
  shows "runs Q e0 (kStructNoOmitempty ev R f rv e)"
proof -
  note st = frame_steps [OF fr]
  show ?thesis
    unfolding kStructNoOmitempty_def Let_def
    by (intro runs_andThen runs_forEach runs_ok ev st e kStructFieldKey_runs [OF fr]
        | split if_split | intro conjI impI | assumption)+
qed

lemma kStruct_runs:
  assumes fr: "frame Q" and ev: "\<And>rv fn' e. Q e0 (Ok e) \<Longrightarrow> runs Q e0 (ev rv fn' e)"
    and en: "\<And>iv e. Q e0 (Ok e) \<Longrightarrow> runs Q e0 (en iv e)"
    and e: "Q e0 (Ok e)"
  shows "runs Q e0 (kStruct ev en R f rv e)"
proof -
  note st = frame_steps [OF fr]
  show ?thesis
    unfolding kStruct_def Let_def
    by (intro runs_andThen runs_forEach runs_ok ev en st e kStructFieldKey_runs [OF fr]
          runs_errorf [OF fr]
        | split if_split option.split prod.split | intro conjI impI allI | assumption)+
qed

lemma kMapCanonical_runs:
  assumes fr: "frame Q" and ev: "\<And>rv fn' e. Q e0 (Ok e) \<Longrightarrow> runs Q e0 (ev rv fn' e)"
    and e: "Q e0 (Ok e)"
  shows "runs Q e0 (kMapCanonical ev me R tinfo rv valFn e)"
proof -
  note st = frame_steps [OF fr]
  have body: "runs Q e0 (forEach (\<lambda>kv e'. ev (mapGet rv (fst kv)) valFn
       (mapElemValue (emit (keyOp (snd kv)) (mapElemKey e')))) xs e)"
    if "\<And>y. keyOp y \<noteq> AtEndOfEncode \<and> keyOp y \<noteq> WriterEnd" for keyOp xs
    using that
    by (intro runs_forEach ev st e frame_emit [OF fr] | assumption | simp)+
  show ?thesis
    unfolding kMapCanonical_def Let_def
    by (intro body runs_panic [OF fr e] runs_None
        | split if_split option.split sum.split | intro conjI impI allI | simp)+
qed

lemma kMap_runs:
  assumes fr: "frame Q" and ev: "\<And>rv fn' e. Q e0 (Ok e) \<Longrightarrow> runs Q e0 (ev rv fn' e)"
    and e: "Q e0 (Ok e)"
  shows "runs Q e0 (kMap ev me R f rv e)"
proof -
  note st = frame_steps [OF fr]
  show ?thesis
    unfolding kMap_def Let_def
    by (intro runs_andThen runs_forEach runs_ok ev st e kMapCanonical_runs [OF fr ev]
          runs_emit [OF fr]
        | split if_split prod.split | intro conjI impI allI | assumption | simp)+
qed

lemma onerror_runs:
  assumes fr: "frame Q" and e: "Q e0 (Ok e)"
  shows "runs Q e0 (onerror fnerr e)"
  unfolding onerror_def
  by (intro runs_errorf [OF fr e] runs_ok e | split option.split | intro conjI impI allI)+

lemma marshal_runs:
  assumes fr: "frame Q" and e: "Q e0 (Ok e)"
  shows "runs Q e0 (marshalUtf8 res1 e)" "runs Q e0 (marshalAsis res2 e)"
    "runs Q e0 (marshalRaw res2 e)"
  unfolding marshalUtf8_def marshalAsis_def marshalRaw_def
  by (intro runs_andThen onerror_runs [OF fr e] runs_emit [OF fr]
      | split option.split | intro conjI impI allI | assumption | simp)+

lemma rawBytes_runs:
  assumes fr: "frame Q" and e: "Q e0 (Ok e)"
  shows "runs Q e0 (rawBytes vv e)"
  unfolding rawBytes_def Let_def
  by (intro runs_errorf [OF fr e] runs_emit [OF fr e]
      | split if_split | intro conjI impI allI | simp)+

lemma selferMarshal_runs:
  assumes fr: "frame Q" and me: "\<And>iv e. Q e0 (Ok e) \<Longrightarrow> runs Q e0 (me iv e)"
    and e: "Q e0 (Ok e)"
  shows "runs Q e0 (selferMarshal me R rv e)"
  unfolding selferMarshal_def
  by (intro runs_forEach e me runs_recovered [OF fr]
      | split selfCall.split | intro conjI impI allI | assumption)+

lemma callFe_runs:
  assumes fr: "frame Q" and ev: "\<And>rv fn' e. Q e0 (Ok e) \<Longrightarrow> runs Q e0 (ev rv fn' e)"
    and en: "\<And>iv e. Q e0 (Ok e) \<Longrightarrow> runs Q e0 (en iv e)"
    and me: "\<And>iv e. Q e0 (Ok e) \<Longrightarrow> runs Q e0 (me iv e)"
    and e: "Q e0 (Ok e)"
  shows "runs Q e0 (callFe ev en me R f rv e)"
  unfolding callFe_def
  by (cases "fe f")
     (simp_all add: runs_emit [OF fr e] selferMarshal_runs [OF fr me e] marshal_runs [OF fr e]
        rawBytes_runs [OF fr e] runs_errorf [OF fr e] kChan_runs [OF fr ev e]
        kSlice_runs [OF fr ev e] kArray_runs [OF fr ev e] kStruct_runs [OF fr ev en e]
        kStructNoOmitempty_runs [OF fr ev e] kMap_runs [OF fr ev e])

lemma encodeValue_call_runs:
  assumes fr: "frame Q" and ev: "\<And>rv fn' e. Q e0 (Ok e) \<Longrightarrow> runs Q e0 (ev rv fn' e)"
    and en: "\<And>iv e. Q e0 (Ok e) \<Longrightarrow> runs Q e0 (en iv e)"
    and me: "\<And>iv e. Q e0 (Ok e) \<Longrightarrow> runs Q e0 (me iv e)"
    and e: "Q e0 (Ok e)"
  shows "runs Q e0 (encodeValue_call ev en me R rvp rv fn' e)"
proof -
  have c: "runs Q e0 (callFe ev en me R f' rv' e)" for f' rv'
    by (rule callFe_runs [OF fr ev en me e])
  show ?thesis
    unfolding encodeValue_call_def Let_def
    by (simp add: c split: option.split)
qed

lemma encode_switch_runs:
  assumes fr: "frame Q" and ev: "\<And>rv fn' e. Q e0 (Ok e) \<Longrightarrow> runs Q e0 (ev rv fn' e)"
    and e: "Q e0 (Ok e)"
  shows "runs Q e0 (encode_switch ev R rv e)"
  unfolding encode_switch_def Let_def
  by (simp add: runs_emit [OF fr e] rawBytes_runs [OF fr e] ev [OF e] split: rdata.split)

lemma encode_body_runs:
  assumes fr: "frame Q" and ev: "\<And>rv fn' e. Q e0 (Ok e) \<Longrightarrow> runs Q e0 (ev rv fn' e)"
    and e: "Q e0 (Ok e)"
  shows "runs Q e0 (encode_body ev R iv e)"
  unfolding encode_body_def
  by (intro runs_emit [OF fr e] encode_switch_runs [OF fr ev e]
      | split if_split option.split prod.split | intro conjI impI allI | simp)+

lemma encodeValue_body_runs:
  assumes fr: "frame Q"
    and again: "\<And>rvp rv fn' e. Q e0 (Ok e) \<Longrightarrow> runs Q e0 (again rvp rv fn' e)"
    and call: "\<And>rvp rv fn' e r. call rvp rv fn' e = Some r \<Longrightarrow> Q e r"
    and e: "Q e0 (Ok e)"
  shows "runs Q e0 (encodeValue_body again call R rvp rv fn' e)"
proof -
  have call': "runs Q e0 (call rvp rv fn' e)" for rvp rv fn'
    by (rule runs_call [OF fr call e])
  have bracket: "runs Q e0
      (andThen (call rvp' rv' fn' (e\<lparr>ci := ci e @ [sp]\<rparr>)) (\<lambda>e.
          if ci e = [] then errorf (RuntimePanic ''slice bounds out of range'') e
          else ok (e\<lparr>ci := butlast (ci e)\<rparr>)))" for rvp' rv' sp
  proof (cases "call rvp' rv' fn' (e\<lparr>ci := ci e @ [sp]\<rparr>)")
    case None
    then show ?thesis by simp
  next
    case (Some r)
    then have q: "Q (e\<lparr>ci := ci e @ [sp]\<rparr>) r" by (rule call)
    show ?thesis
    proof (cases r)
      case (Ok e1)
      from frame_bracket_ok [OF fr e q [unfolded Ok]] show ?thesis
        using Some Ok by (auto simp: runs_def popCi_def errorf_def ok_def split: if_splits)
    next
      case (Panic x e1)
      from frame_bracket_panic [OF fr e q [unfolded Panic]] show ?thesis
        using Some Panic by (simp add: runs_def)
    qed
  qed
  show ?thesis
    unfolding encodeValue_body_def Let_def
    by (intro runs_emit [OF fr e] runs_errorf [OF fr e] again [OF e] call' bracket
        | split if_split | intro conjI impI allI | simp)+
qed

section \<open>Properties kept by the whole engine\<close>

lemma runsD: "runs Q e0 res \<Longrightarrow> res = Some r \<Longrightarrow> Q e0 r"
  by (simp add: runs_def)

lemma engine_runs:
  assumes fr: "frame Q"
    and must: "\<And>en iv e r. (\<And>iv e r. en iv e = Some r \<Longrightarrow> Q e r) \<Longrightarrow>
        MustEncode_body en iv e = Some r \<Longrightarrow> Q e r"
  shows "(\<forall>R rvp rv fn' e r. encodeValue n R rvp rv fn' e = Some r \<longrightarrow> Q e r) \<and>
         (\<forall>R iv e r. encode n R iv e = Some r \<longrightarrow> Q e r) \<and>
         (\<forall>R iv e r. MustEncode n R iv e = Some r \<longrightarrow> Q e r)"
proof (induction n)
  case 0
  show ?case by (simp add: encodeValue.simps encode.simps MustEncode.simps)
next
  case (Suc n)
  then have ev: "\<And>R rvp rv fn' e r. encodeValue n R rvp rv fn' e = Some r \<Longrightarrow> Q e r"
    and en: "\<And>R iv e r. encode n R iv e = Some r \<Longrightarrow> Q e r"
    and me: "\<And>R iv e r. MustEncode n R iv e = Some r \<Longrightarrow> Q e r"
    by blast+
  have ev': "runs Q e0 (encodeValue n R rvp rv fn' e)" if "Q e0 (Ok e)" for e0 R rvp rv fn' e
    by (rule runs_call [OF fr ev that])
  have en': "runs Q e0 (encode n R iv e)" if "Q e0 (Ok e)" for e0 R iv e
    by (rule runs_call [OF fr en that])
  have me': "runs Q e0 (MustEncode n R iv e)" if "Q e0 (Ok e)" for e0 R iv e
    by (rule runs_call [OF fr me that])
  have call: "Q e r"
    if a: "encodeValue_call (\<lambda>rv fn' e. encodeValue n R None rv fn' e) (\<lambda>iv e. encode n R iv e)
          (\<lambda>iv e. MustEncode n R iv e) R rvp rv fn' e = Some r" for R rvp rv fn' e r
  proof -
    have evn: "runs Q e (encodeValue n R None rv' fn'' e1)" if "Q e (Ok e1)" for rv' fn'' e1
      by (rule ev' [OF that])
    have enn: "runs Q e (encode n R iv e1)" if "Q e (Ok e1)" for iv e1
      by (rule en' [OF that])
    have men: "runs Q e (MustEncode n R iv e1)" if "Q e (Ok e1)" for iv e1
      by (rule me' [OF that])
    have "runs Q e (encodeValue_call (encodeValue n R None) (encode n R) (MustEncode n R)
        R rvp rv fn' e)"
      by (rule encodeValue_call_runs [OF fr evn enn men frame_refl [OF fr]])
    then show ?thesis using a by (rule runsD)
  qed
  have 1: "Q e r" if a: "encodeValue (Suc n) R rvp rv fn' e = Some r" for R rvp rv fn' e r
  proof -
    have again: "runs Q e (encodeValue n R rvp' rv' fn'' e1)" if "Q e (Ok e1)"
      for rvp' rv' fn'' e1
      by (rule ev' [OF that])
    have "runs Q e (encodeValue_body (encodeValue n R)
        (encodeValue_call (encodeValue n R None) (encode n R) (MustEncode n R) R)
        R rvp rv fn' e)"
      by (rule encodeValue_body_runs [OF fr again call frame_refl [OF fr]])
    then show ?thesis using a unfolding encodeValue.simps by (rule runsD)
  qed
  have 2: "Q e r" if a: "encode (Suc n) R iv e = Some r" for R iv e r
  proof -
    have evn: "runs Q e (encodeValue n R None rv' fn'' e1)" if "Q e (Ok e1)" for rv' fn'' e1
      by (rule ev' [OF that])
    have "runs Q e (encode_body (encodeValue n R None) R iv e)"
      by (rule encode_body_runs [OF fr evn frame_refl [OF fr]])
    then show ?thesis using a unfolding encode.simps by (rule runsD)
  qed
  have 3: "Q e r" if a: "MustEncode (Suc n) R iv e = Some r" for R iv e r
  proof -
    have enn: "Q e1 r1" if "encode n R iv1 e1 = Some r1" for iv1 e1 r1
      by (rule en [OF that])
    from a have b: "MustEncode_body (encode n R) iv e = Some r" by (simp add: MustEncode.simps)
    show ?thesis by (rule must [OF _ b]) (rule enn)
  qed
  from 1 2 3 show ?case by blast
qed

section \<open>The stack of open struct pointers\<close>

lemma st_simps [simp]: "trace (st (popCi e)) = trace e" "calls (st (popCi e)) = calls e"
  "err (st (popCi e)) = err e"
  by (simp_all add: popCi_def)

lemma frame_ciKept: "frame ciKept"
  unfolding frame_def ciKept_def
  by (auto simp: emit_def popCi_def)

lemma MustEncode_body_ciKept:
  assumes en: "\<And>iv e r. en iv e = Some r \<Longrightarrow> ciKept e r"
    and m: "MustEncode_body en iv e = Some r"
  shows "ciKept e r"
proof (cases "err e = None \<and> hhSet e")
  case False
  then show ?thesis using m
    by (auto simp: MustEncode_body_def ciKept_def split: option.splits if_splits)
next
  case True
  then have m': "andThen (en iv (e\<lparr>calls := calls e + 1\<rparr>)) (\<lambda>e.
              let e = e\<lparr>calls := calls e - 1\<rparr> in
              if calls e = 0 then ok (emit WriterEnd (emit AtEndOfEncode e))
              else ok e) = Some r"
    using m by (simp add: MustEncode_body_def)
  show ?thesis
  proof (cases "en iv (e\<lparr>calls := calls e + 1\<rparr>)")
    case None
    then show ?thesis using m' by simp
  next
    case (Some r1)
    from en [OF Some] have q: "ciKept (e\<lparr>calls := calls e + 1\<rparr>) r1" .
    show ?thesis
    proof (cases r1)
      case (Ok e2)
      then show ?thesis using q m' Some
        by (auto simp: ciKept_def Let_def ok_def emit_def split: if_splits)
    next
      case (Panic x e2)
      then show ?thesis using q m' Some by (auto simp: ciKept_def)
    qed
  qed
qed

lemma ciKept_engine:
  "(\<forall>R rvp rv fn' e r. encodeValue n R rvp rv fn' e = Some r \<longrightarrow> ciKept e r) \<and>
   (\<forall>R iv e r. encode n R iv e = Some r \<longrightarrow> ciKept e r) \<and>
   (\<forall>R iv e r. MustEncode n R iv e = Some r \<longrightarrow> ciKept e r)"
  by (rule engine_runs [OF frame_ciKept MustEncode_body_ciKept])

lemma ciKept_call:
  assumes "encodeValue_call (encodeValue n R None) (encode n R) (MustEncode n R) R rvp rv fn' e
     = Some r"
  shows "ciKept e r"
proof -
  note eng = ciKept_engine [of n]
  have evn: "runs ciKept e (encodeValue n R None rv' fn'' e1)" if "ciKept e (Ok e1)"
    for rv' fn'' e1
    by (rule runs_call [OF frame_ciKept _ that]) (use eng in blast)
  have enn: "runs ciKept e (encode n R iv e1)" if "ciKept e (Ok e1)" for iv e1
    by (rule runs_call [OF frame_ciKept _ that]) (use eng in blast)
  have men: "runs ciKept e (MustEncode n R iv e1)" if "ciKept e (Ok e1)" for iv e1
    by (rule runs_call [OF frame_ciKept _ that]) (use eng in blast)
  have "runs ciKept e (encodeValue_call (encodeValue n R None) (encode n R) (MustEncode n R)
      R rvp rv fn' e)"
    by (rule encodeValue_call_runs [OF frame_ciKept evn enn men frame_refl [OF frame_ciKept]])
  then show ?thesis using assms by (rule runsD)
qed

lemmas engine_simps =
  run_simps MustEncode_body_def encode_body_def encode_switch_def isNil_def valueOf_def
  rawTyp_def reflectValueTyp_def uint8SliceTyp_def selferMarshal_def recovered_def
  kStruct_def kStruct_mf_def kStructSfi_def kStructFieldKey_def encStructFieldKey_def field_def
  rv2i_def eq4i_def

text \<open>
  Claim C5. With \<open>CheckCircularRef\<close>, when \<open>encodeValue\<close> dereferences a pointer that
  is not nil and points to a struct: if the identity of the pointer (its type and address)
  is already on the stack \<open>ci\<close>, it fails at once with \<open>CircularReference\<close>, the encoder
  unchanged; if it is not, the identity is pushed, the struct is encoded with it on the
  stack, and the top of the stack is popped after that. The encoding of the struct
  returns with the stack it was given, so the pop removes that identity, and the whole call
  returns with the stack it started with (unless a nested \<open>Encode\<close> of a user method
  recorded an error).
\<close>

theorem encodeValue_circular_ref:
  assumes "rvKind rv = KPtr" and "\<not> rvIsNil rv" and "CheckCircularRef (h e)"
    and "rvKind (rvElem (mem R) rv) = KStruct"
  shows "(rv2i rv \<in> set (ci e) \<longrightarrow>
            encodeValue (Suc n) R rvp rv fn' e = Some (Panic (CircularReference (rv2i rv)) e)) \<and>
         (rv2i rv \<notin> set (ci e) \<longrightarrow>
            encodeValue (Suc n) R rvp rv fn' e =
              andThen
                (encodeValue_call (encodeValue n R None) (encode n R) (MustEncode n R) R
                   (Some rv) (rvElem (mem R) rv) fn' (e\<lparr>ci := ci e @ [rv2i rv]\<rparr>))
                (\<lambda>e1. if ci e1 = [] then errorf (RuntimePanic ''slice bounds out of range'') e1
                      else ok (e1\<lparr>ci := butlast (ci e1)\<rparr>))) \<and>
         (encodeValue_call (encodeValue n R None) (encode n R) (MustEncode n R) R
              (Some rv) (rvElem (mem R) rv) fn' (e\<lparr>ci := ci e @ [rv2i rv]\<rparr>) = Some (Ok e1) \<and>
            err e1 = None \<longrightarrow> ci e1 = ci e @ [rv2i rv]) \<and>
         (encodeValue (Suc n) R rvp rv fn' e = Some (Ok e') \<and> err e' = None \<longrightarrow> ci e' = ci e)"
proof (intro conjI impI)
  assume "rv2i rv \<in> set (ci e)"
  then show "encodeValue (Suc n) R rvp rv fn' e = Some (Panic (CircularReference (rv2i rv)) e)"
    using assms
    by (simp add: encodeValue.simps encodeValue_body_def Let_def list_ex_iff eq4i_def errorf_def)
next
  assume "rv2i rv \<notin> set (ci e)"
  then show "encodeValue (Suc n) R rvp rv fn' e =
              andThen
                (encodeValue_call (encodeValue n R None) (encode n R) (MustEncode n R) R
                   (Some rv) (rvElem (mem R) rv) fn' (e\<lparr>ci := ci e @ [rv2i rv]\<rparr>))
                (\<lambda>e1. if ci e1 = [] then errorf (RuntimePanic ''slice bounds out of range'') e1
                      else ok (e1\<lparr>ci := butlast (ci e1)\<rparr>))"
    using assms
    by (simp add: encodeValue.simps encodeValue_body_def Let_def list_ex_iff eq4i_def)
next
  assume a: "encodeValue_call (encodeValue n R None) (encode n R) (MustEncode n R) R
              (Some rv) (rvElem (mem R) rv) fn' (e\<lparr>ci := ci e @ [rv2i rv]\<rparr>) = Some (Ok e1) \<and>
            err e1 = None"
  from ciKept_call [of n R "Some rv" "rvElem (mem R) rv" fn' "e\<lparr>ci := ci e @ [rv2i rv]\<rparr>" "Ok e1"] a
  show "ci e1 = ci e @ [rv2i rv]" by (simp add: ciKept_def)
next
  assume a: "encodeValue (Suc n) R rvp rv fn' e = Some (Ok e') \<and> err e' = None"
  from ciKept_engine [of "Suc n"] a have "ciKept e (Ok e')" by blast
  with a show "ci e' = ci e" by (simp add: ciKept_def)
qed

theorem encodeValue_circular_ref_witness:
  "encodeValue (Suc 0) (stdRuntime exNodeMem) None (RV (TPtr (TStruct ''N'')) False (DPtr 10)) None
     (checkingEncoder\<lparr>ci := [(TPtr (TStruct ''N''), DPtr 10)]\<rparr>)
     = Some (Panic (CircularReference (TPtr (TStruct ''N''), DPtr 10))
         (checkingEncoder\<lparr>ci := [(TPtr (TStruct ''N''), DPtr 10)]\<rparr>)) \<and>
   encodeValue (Suc (Suc (Suc (Suc 0)))) (stdRuntime exNodeMem) None
     (RV (TPtr (TStruct ''N'')) False (DPtr 10)) None checkingEncoder
     = Some (Panic (CircularReference (TPtr (TStruct ''N''), DPtr 10))
         (checkingEncoder\<lparr>trace := [WriteMapStart 1, EncodeString ''next''],
            c := containerMapValue, ci := [(TPtr (TStruct ''N''), DPtr 10)]\<rparr>)) \<and>
   encodeValue (Suc (Suc (Suc (Suc 0)))) (stdRuntime exNodeMem) None
     (RV (TPtr (TStruct ''N'')) False (DPtr 11)) None checkingEncoder
     = Some (Ok (checkingEncoder
         \<lparr>trace := [WriteMapStart 1, EncodeString ''next'', EncodeNil, WriteMapEnd]\<rparr>))"
proof -
  let ?R = "stdRuntime exNodeMem"
  let ?p = "RV (TPtr (TStruct ''N'')) False (DPtr 10)"
  let ?e = "checkingEncoder\<lparr>ci := [(TPtr (TStruct ''N''), DPtr 10)]\<rparr>"
  have a: "rvKind ?p = KPtr" "\<not> rvIsNil ?p" "CheckCircularRef (h ?e)"
    "rvKind (rvElem (mem ?R) ?p) = KStruct"
    by (simp_all add: rvIsNil_def checkingEncoder_def newEncoder_def stdRuntime_def exNodeMem_def)
  have b: "rv2i ?p \<in> set (ci ?e)" by (simp add: rv2i_def)
  from encodeValue_circular_ref [OF a, of 0 None None] b
  have 1: "encodeValue (Suc 0) ?R None ?p None ?e
     = Some (Panic (CircularReference (TPtr (TStruct ''N''), DPtr 10)) ?e)"
    by (simp add: rv2i_def)
  have 2: "encodeValue (Suc (Suc (Suc (Suc 0)))) ?R None ?p None checkingEncoder
     = Some (Panic (CircularReference (TPtr (TStruct ''N''), DPtr 10))
         (checkingEncoder\<lparr>trace := [WriteMapStart 1, EncodeString ''next''],
            c := containerMapValue, ci := [(TPtr (TStruct ''N''), DPtr 10)]\<rparr>))"
    by (simp add: engine_simps checkingEncoder_def exNodeMem_def exNodeInfos_def)
  have 3: "encodeValue (Suc (Suc (Suc (Suc 0)))) ?R None
     (RV (TPtr (TStruct ''N'')) False (DPtr 11)) None checkingEncoder
     = Some (Ok (checkingEncoder
         \<lparr>trace := [WriteMapStart 1, EncodeString ''next'', EncodeNil, WriteMapEnd]\<rparr>))"
    by (simp add: engine_simps checkingEncoder_def exNodeMem_def exNodeInfos_def)
  from 1 2 3 show ?thesis by blast
qed

section \<open>The reentrancy counter\<close>

lemma callsKept_refl: "callsKept e (Ok e)"
  by (simp add: callsKept_def noFinal_def)

lemma callsKept_trans:
  assumes a: "callsKept e0 (Ok e)" and b: "callsKept e r"
  shows "callsKept e0 r"
proof -
  from a obtain ops1 where t1: "trace e = trace e0 @ ops1"
    and n1: "1 \<le> calls e0 \<longrightarrow> noFinal ops1" and c1: "calls e0 \<le> calls e"
    and e1: "err e = None \<longrightarrow> err e0 = None \<and> calls e = calls e0"
    by (auto simp: callsKept_def)
  from b obtain ops2 where t2: "trace (st r) = trace e @ ops2"
    and n2: "1 \<le> calls e \<longrightarrow> noFinal ops2" and c2: "calls e \<le> calls (st r)"
    and e2: "err (st r) = None \<longrightarrow> err e = None \<and> (isOk r \<longrightarrow> calls (st r) = calls e)"
    by (auto simp: callsKept_def)
  have t: "trace (st r) = trace e0 @ (ops1 @ ops2)" using t1 t2 by simp
  have n: "1 \<le> calls e0 \<longrightarrow> noFinal (ops1 @ ops2)"
    using n1 n2 c1 by (auto simp: noFinal_def)
  show ?thesis
    unfolding callsKept_def
    using t n c1 c2 e1 e2 by (intro conjI exI [of _ "ops1 @ ops2"]) auto
qed

lemma callsKept_same:
  assumes "trace e' = trace e" "calls e' = calls e" "err e' = err e \<or> err e' \<noteq> None"
  shows "callsKept e (Ok e')" "callsKept e (Panic x e')"
  using assms by (auto simp: callsKept_def noFinal_def)

lemma frame_callsKept: "frame callsKept"
  unfolding frame_def
proof (intro conjI allI impI)
  fix e show "callsKept e (Ok e)" by (rule callsKept_refl)
next
  fix e0 e x assume a: "callsKept e0 (Ok e)" and x: "x \<noteq> AtEndOfEncode" "x \<noteq> WriterEnd"
  have "callsKept e (Ok (emit x e))" using x by (auto simp: callsKept_def noFinal_def emit_def)
  with a show "callsKept e0 (Ok (emit x e))" by (rule callsKept_trans)
next
  fix e0 e s assume a: "callsKept e0 (Ok e)"
  have "callsKept e (Ok (e\<lparr>c := s\<rparr>))" by (rule callsKept_same) simp_all
  with a show "callsKept e0 (Ok (e\<lparr>c := s\<rparr>))" by (rule callsKept_trans)
next
  fix e0 e x assume a: "callsKept e0 (Ok e)"
  have "callsKept e (Panic x e)" by (rule callsKept_same) simp_all
  with a show "callsKept e0 (Panic x e)" by (rule callsKept_trans)
next
  fix e0 e r assume "callsKept e0 (Ok e)" "callsKept e r"
  then show "callsKept e0 r" by (rule callsKept_trans)
next
  fix e0 e x assume a: "callsKept e0 (Panic x e)"
  then show "callsKept e0 (Ok (e\<lparr>err := Some x\<rparr>))" by (auto simp: callsKept_def)
next
  fix e0 e s x e1
  assume a: "callsKept e0 (Ok e)" and b: "callsKept (e\<lparr>ci := ci e @ [s]\<rparr>) (Panic x e1)"
  have "callsKept e (Ok (e\<lparr>ci := ci e @ [s]\<rparr>))" by (rule callsKept_same) simp_all
  from callsKept_trans [OF a this] b show "callsKept e0 (Panic x e1)" by (rule callsKept_trans)
next
  fix e0 e s e1
  assume a: "callsKept e0 (Ok e)" and b: "callsKept (e\<lparr>ci := ci e @ [s]\<rparr>) (Ok e1)"
  have "callsKept e (Ok (e\<lparr>ci := ci e @ [s]\<rparr>))" by (rule callsKept_same) simp_all
  from callsKept_trans [OF a this] b have c: "callsKept e0 (Ok e1)" by (rule callsKept_trans)
  have "callsKept e1 (popCi e1)"
    unfolding popCi_def by (auto intro!: callsKept_same)
  with c show "callsKept e0 (popCi e1)" by (rule callsKept_trans)
qed

lemma MustEncode_body_callsKept:
  assumes en: "\<And>iv e r. en iv e = Some r \<Longrightarrow> callsKept e r"
    and m: "MustEncode_body en iv e = Some r"
  shows "callsKept e r"
proof (cases "err e = None \<and> hhSet e")
  case False
  then show ?thesis using m
    by (auto simp: MustEncode_body_def callsKept_def noFinal_def split: option.splits if_splits)
next
  case True
  let ?e1 = "e\<lparr>calls := calls e + 1\<rparr>"
  from True have m': "andThen (en iv ?e1) (\<lambda>e.
              let e = e\<lparr>calls := calls e - 1\<rparr> in
              if calls e = 0 then ok (emit WriterEnd (emit AtEndOfEncode e))
              else ok e) = Some r"
    using m by (simp add: MustEncode_body_def)
  show ?thesis
  proof (cases "en iv ?e1")
    case None
    then show ?thesis using m' by simp
  next
    case (Some r1)
    from en [OF Some] obtain ops where t: "trace (st r1) = trace e @ ops"
      and n: "0 \<le> calls e \<longrightarrow> noFinal ops" and c: "calls e + 1 \<le> calls (st r1)"
      and er: "err (st r1) = None \<longrightarrow> (isOk r1 \<longrightarrow> calls (st r1) = calls e + 1)"
      by (auto simp: callsKept_def)
    show ?thesis
    proof (cases r1)
      case (Panic x e2)
      then have "r = Panic x e2" using m' Some by simp
      then show ?thesis using t n c True Panic
        by (auto simp: callsKept_def intro!: exI [of _ ops])
    next
      case (Ok e2)
      show ?thesis
      proof (cases "calls e2 - 1 = 0")
        case z: True
        then have r: "r = Ok (emit WriterEnd (emit AtEndOfEncode (e2\<lparr>calls := calls e2 - 1\<rparr>)))"
          using m' Some Ok by (simp add: Let_def ok_def)
        have "calls e \<le> 0" using c Ok z by simp
        then show ?thesis using t c er True Ok z r
          by (auto simp: callsKept_def emit_def
              intro!: exI [of _ "ops @ [AtEndOfEncode, WriterEnd]"])
      next
        case nz: False
        then have r: "r = Ok (e2\<lparr>calls := calls e2 - 1\<rparr>)"
          using m' Some Ok by (simp add: Let_def ok_def)
        show ?thesis using t n c er True Ok nz r
          by (auto simp: callsKept_def intro!: exI [of _ ops])
      qed
    qed
  qed
qed

lemma callsKept_engine:
  "(\<forall>R rvp rv fn' e r. encodeValue n R rvp rv fn' e = Some r \<longrightarrow> callsKept e r) \<and>
   (\<forall>R iv e r. encode n R iv e = Some r \<longrightarrow> callsKept e r) \<and>
   (\<forall>R iv e r. MustEncode n R iv e = Some r \<longrightarrow> callsKept e r)"
  by (rule engine_runs [OF frame_callsKept MustEncode_body_callsKept])

lemma callsKept_encode:
  "encode n R iv e = Some r \<Longrightarrow> callsKept e r"
  using callsKept_engine [of n] by blast

text \<open>
  Claim C9. \<open>MustEncode\<close>, when no error is recorded, runs \<open>encode\<close> with the counter
  \<open>calls\<close> incremented and decrements it after, and finishes the stream (the driver's
  \<open>AtEndOfEncode\<close>, then the writer's end) if the counter is then zero. A call that starts
  with the counter at zero and returns with no error recorded has finished the stream
  exactly once, as the last thing it did, and the counter is zero again. A call that starts
  with the counter at one or more, a nested call, never finishes the stream, whether it
  returns or panics, and returns with the counter it started with. A call that panics
  has not finished the stream.
\<close>

theorem MustEncode_reentrancy:
  "(err e = None \<and> hhSet e \<longrightarrow>
      MustEncode (Suc n) R iv e =
        andThen (encode n R iv (e\<lparr>calls := calls e + 1\<rparr>))
          (\<lambda>e1. if calls e1 - 1 = 0
                then ok (emit WriterEnd (emit AtEndOfEncode (e1\<lparr>calls := calls e1 - 1\<rparr>)))
                else ok (e1\<lparr>calls := calls e1 - 1\<rparr>))) \<and>
   (MustEncode n R iv e = Some (Ok e') \<and> calls e = 0 \<and> err e' = None \<longrightarrow>
      (\<exists>ops. trace e' = trace e @ ops @ [AtEndOfEncode, WriterEnd] \<and> noFinal ops) \<and>
      calls e' = 0) \<and>
   (MustEncode n R iv e = Some r \<and> 1 \<le> calls e \<longrightarrow>
      (\<exists>ops. trace (st r) = trace e @ ops \<and> noFinal ops) \<and>
      (isOk r \<and> err (st r) = None \<longrightarrow> calls (st r) = calls e)) \<and>
   (MustEncode n R iv e = Some (Panic x e') \<and> 0 \<le> calls e \<longrightarrow>
      (\<exists>ops. trace e' = trace e @ ops \<and> noFinal ops))"
proof -
  have c1: "MustEncode (Suc n) R iv e =
        andThen (encode n R iv (e\<lparr>calls := calls e + 1\<rparr>))
          (\<lambda>e1. if calls e1 - 1 = 0
                then ok (emit WriterEnd (emit AtEndOfEncode (e1\<lparr>calls := calls e1 - 1\<rparr>)))
                else ok (e1\<lparr>calls := calls e1 - 1\<rparr>))"
    if "err e = None \<and> hhSet e"
    using that by (simp add: MustEncode.simps MustEncode_body_def Let_def)
  have c3: "(\<exists>ops. trace (st r) = trace e @ ops \<and> noFinal ops) \<and>
      (isOk r \<and> err (st r) = None \<longrightarrow> calls (st r) = calls e)"
    if a: "MustEncode n R iv e = Some r \<and> 1 \<le> calls e"
  proof -
    from a callsKept_engine [of n] have "callsKept e r" by blast
    with a show ?thesis by (auto simp: callsKept_def)
  qed
  have c2: "(\<exists>ops. trace e' = trace e @ ops @ [AtEndOfEncode, WriterEnd] \<and> noFinal ops) \<and>
      calls e' = 0"
    if a: "MustEncode n R iv e = Some (Ok e') \<and> calls e = 0 \<and> err e' = None"
  proof -
  from a obtain m where n: "n = Suc m" by (cases n) (auto simp: MustEncode.simps)
  let ?e1 = "e\<lparr>calls := calls e + 1\<rparr>"
  from a n have b: "MustEncode_body (encode m R) iv e = Some (Ok e')"
    by (simp add: MustEncode.simps)
  then have pre: "err e = None" "hhSet e"
    by (auto simp: MustEncode_body_def split: option.splits if_splits)
  with b have c: "andThen (encode m R iv ?e1)
          (\<lambda>e1. let e1 = e1\<lparr>calls := calls e1 - 1\<rparr> in
                if calls e1 = 0 then ok (emit WriterEnd (emit AtEndOfEncode e1)) else ok e1)
      = Some (Ok e')"
    by (simp add: MustEncode_body_def)
  then obtain e2 where d: "encode m R iv ?e1 = Some (Ok e2)"
    by (cases "encode m R iv ?e1" rule: option.exhaust; cases "the (encode m R iv ?e1)") auto
  from callsKept_encode [OF d] obtain ops where t: "trace e2 = trace e @ ops"
    and nf: "noFinal ops" and k: "err e2 = None \<longrightarrow> calls e2 = calls e + 1"
    using a by (auto simp: callsKept_def)
  from c d have e': "e' = (let e1 = e2\<lparr>calls := calls e2 - 1\<rparr> in
       if calls e1 = 0 then emit WriterEnd (emit AtEndOfEncode e1) else e1)"
    by (auto simp: Let_def ok_def split: if_splits)
  then have "err e' = err e2" by (simp add: Let_def emit_def)
  with a k have k2: "calls e2 = 1" by simp
  with e' have "e' = emit WriterEnd (emit AtEndOfEncode (e2\<lparr>calls := 0\<rparr>))" by (simp add: Let_def)
  then have "trace e' = trace e @ ops @ [AtEndOfEncode, WriterEnd]" "calls e' = 0"
    using t by (simp_all add: emit_def)
  with nf show ?thesis by blast
  qed
  have c4: "\<exists>ops. trace e' = trace e @ ops \<and> noFinal ops"
    if a: "MustEncode n R iv e = Some (Panic x e') \<and> 0 \<le> calls e"
  proof -
  from a obtain m where n: "n = Suc m" by (cases n) (auto simp: MustEncode.simps)
  let ?e1 = "e\<lparr>calls := calls e + 1\<rparr>"
  from a n have b: "MustEncode_body (encode m R) iv e = Some (Panic x e')"
    by (simp add: MustEncode.simps)
  show ?thesis
  proof (cases "err e = None \<and> hhSet e")
    case False
    with b have "e' = e" by (auto simp: MustEncode_body_def split: option.splits if_splits)
    then show ?thesis by (intro exI [of _ "[]"]) (simp add: noFinal_def)
  next
    case True
    with b have c: "andThen (encode m R iv ?e1)
          (\<lambda>e1. let e1 = e1\<lparr>calls := calls e1 - 1\<rparr> in
                if calls e1 = 0 then ok (emit WriterEnd (emit AtEndOfEncode e1)) else ok e1)
      = Some (Panic x e')"
      by (simp add: MustEncode_body_def)
    then have d: "encode m R iv ?e1 = Some (Panic x e')"
      by (cases "encode m R iv ?e1" rule: option.exhaust; cases "the (encode m R iv ?e1)")
         (auto simp: Let_def ok_def split: if_splits)
    from callsKept_encode [OF d] a show ?thesis by (auto simp: callsKept_def)
  qed
  qed
  from c1 c2 c3 c4 show ?thesis by blast
qed

theorem MustEncode_reentrancy_witness:
  "MustEncode (Suc (Suc (Suc (Suc (Suc 0))))) exSelferRuntime (Some (TStruct ''S'', DStruct []))
     selferEncoder
     = Some (Ok (selferEncoder\<lparr>trace := [EncodeInt 5, AtEndOfEncode, WriterEnd]\<rparr>)) \<and>
   (\<exists>ops. [EncodeInt 5, AtEndOfEncode, WriterEnd] = trace selferEncoder @ ops @ [AtEndOfEncode, WriterEnd]
      \<and> noFinal ops) \<and>
   MustEncode (Suc (Suc (Suc (Suc (Suc 0))))) exSelferRuntime (Some (TStruct ''S'', DStruct []))
     (selferEncoder\<lparr>calls := 1\<rparr>)
     = Some (Ok (selferEncoder\<lparr>trace := [EncodeInt 5], calls := 1\<rparr>))"
proof -
  let ?n = "Suc (Suc (Suc (Suc (Suc 0))))"
  let ?iv = "Some (TStruct ''S'', DStruct [])"
  let ?e' = "selferEncoder\<lparr>trace := [EncodeInt 5, AtEndOfEncode, WriterEnd]\<rparr>"
  have 1: "MustEncode ?n exSelferRuntime ?iv selferEncoder = Some (Ok ?e')"
    by (simp add: engine_simps selferEncoder_def exSelferRuntime_def exSelferFn_def)
  have h: "MustEncode ?n exSelferRuntime ?iv selferEncoder = Some (Ok ?e') \<and>
      calls selferEncoder = 0 \<and> err ?e' = None"
    using 1 by (simp add: selferEncoder_def newEncoder_def)
  from MustEncode_reentrancy [where e = selferEncoder and n = ?n and R = exSelferRuntime
      and iv = ?iv and e' = ?e'] h
  have 2: "\<exists>ops. trace ?e' = trace selferEncoder @ ops @ [AtEndOfEncode, WriterEnd] \<and> noFinal ops"
    by blast
  have 3: "MustEncode ?n exSelferRuntime ?iv (selferEncoder\<lparr>calls := 1\<rparr>)
     = Some (Ok (selferEncoder\<lparr>trace := [EncodeInt 5], calls := 1\<rparr>))"
    by (simp add: engine_simps selferEncoder_def exSelferRuntime_def exSelferFn_def)
  from 1 2 3 show ?thesis by simp
qed

lemma kArrayWMbs_eq: "kArrayWMbs ev rv tinfo e = kSliceWMbs ev rv tinfo e"
proof -
  have "rvIndex = rvSliceIndex" by (intro ext) (simp add: rvIndex_def rvSliceIndex_def)
  then show ?thesis by (simp add: kArrayWMbs_def kSliceWMbs_def rvLen_def rvLenSlice_def Let_def)
qed

lemma encodePairs_callsKept:
  assumes "encodePairs (encodeValue n R None) f ps e1 = Some r"
  shows "callsKept e1 r"
proof -
  note fr = frame_callsKept
  note eng = callsKept_engine [of n]
  have ev: "runs callsKept e1 (encodeValue n R None rv' fn'' e2)" if "callsKept e1 (Ok e2)"
    for rv' fn'' e2
    by (rule runs_call [OF fr _ that]) (use eng in blast)
  note st = frame_steps [OF fr]
  have "runs callsKept e1 (encodePairs (encodeValue n R None) f ps e1)"
    unfolding encodePairs_def
    by (intro runs_forEach runs_andThen ev st frame_refl [OF fr]
        | split prod.split | intro allI impI | assumption)+
  then show ?thesis using assms by (rule runsD)
qed

text \<open>
  Claim C1. A map-by-slice sequence (slice or array) of odd length fails with
  \<open>MalformedFlattenedSequence\<close>, reporting that length, before anything is written. A
  sequence of even length \<open>l\<close> starts a map of \<open>l div 2\<close> entries, encodes its pairs in
  index order, element \<open>2i\<close> as the key and element \<open>2i+1\<close> as the value of pair
  \<open>i\<close>, and ends the map; the length check does not fire. Conversely, in the engine a
  failure of the handler that has written nothing happens only for an odd length, and is
  that error.
\<close>

theorem kSliceWMbs_odd_fails_even_pairs:
  "kSliceWMbs ev rv tinfo e =
     (if odd (rvLenSlice rv) then Some (Panic (MalformedFlattenedSequence (rvLenSlice rv)) e)
      else andThen
             (encodePairs ev (kSeqFn (h e) (elem tinfo)) (mbsPairs (rvElems rv))
                (mapStart (rvLenSlice rv div 2) e))
             (\<lambda>e'. ok (mapEnd e'))) \<and>
   kArrayWMbs ev rv tinfo e =
     (if odd (rvLen rv) then Some (Panic (MalformedFlattenedSequence (rvLen rv)) e)
      else andThen
             (encodePairs ev (kSeqFn (h e) (elem tinfo)) (mbsPairs (rvElems rv))
                (mapStart (rvLen rv div 2) e))
             (\<lambda>e'. ok (mapEnd e'))) \<and>
   length (mbsPairs (rvElems rv)) = rvLenSlice rv div 2 \<and>
   (\<forall>i < rvLenSlice rv div 2.
      mbsPairs (rvElems rv) ! i = (rvElems rv ! (2 * i), rvElems rv ! (2 * i + 1))) \<and>
   (kSliceWMbs (encodeValue n R None) rv tinfo e = Some (Panic x e') \<and> trace e' = trace e \<longrightarrow>
      odd (rvLenSlice rv) \<and> x = MalformedFlattenedSequence (rvLenSlice rv))"
proof -
  have main: "kSliceWMbs ev rv tinfo e =
     (if odd (rvLenSlice rv) then Some (Panic (MalformedFlattenedSequence (rvLenSlice rv)) e)
      else andThen
             (encodePairs ev (kSeqFn (h e) (elem tinfo)) (mbsPairs (rvElems rv))
                (mapStart (rvLenSlice rv div 2) e))
             (\<lambda>e'. ok (mapEnd e')))" for ev
  proof (cases "rvLenSlice rv = 0")
    case True
    then show ?thesis by (simp add: kSliceWMbs_def rvLenSlice_def encodePairs_def)
  next
    case False
    show ?thesis
    proof (cases "odd (rvLenSlice rv)")
      case True
      then show ?thesis using False
        by (simp add: kSliceWMbs_def haltOnMbsOddLen_def and_one_eq errorf_def
            odd_iff_mod_2_eq_one)
    next
      case ev: False
      then have len: "even (length (rvElems rv))" by (simp add: rvLenSlice_def)
      have halt: "haltOnMbsOddLen (length (rvElems rv)) e = ok e"
        using len by (simp add: haltOnMbsOddLen_def and_one_eq)
      show ?thesis using False ev
        by (simp add: kSliceWMbs_def halt rvSliceIndex_def mbs_loop [OF len, simplified]
            rvLenSlice_def encodePairs_def drop_bit_eq_div Let_def)
    qed
  qed
  have arr: "kArrayWMbs ev rv tinfo e =
     (if odd (rvLen rv) then Some (Panic (MalformedFlattenedSequence (rvLen rv)) e)
      else andThen
             (encodePairs ev (kSeqFn (h e) (elem tinfo)) (mbsPairs (rvElems rv))
                (mapStart (rvLen rv div 2) e))
             (\<lambda>e'. ok (mapEnd e')))"
    using main [of ev] by (simp add: kArrayWMbs_eq rvLen_def rvLenSlice_def)
  have len: "length (mbsPairs (rvElems rv)) = rvLenSlice rv div 2"
    by (simp add: mbsPairs_length rvLenSlice_def)
  have nth: "\<forall>i < rvLenSlice rv div 2.
      mbsPairs (rvElems rv) ! i = (rvElems rv ! (2 * i), rvElems rv ! (2 * i + 1))"
    by (simp add: mbsPairs_nth rvLenSlice_def)
  have only: "odd (rvLenSlice rv) \<and> x = MalformedFlattenedSequence (rvLenSlice rv)"
    if a: "kSliceWMbs (encodeValue n R None) rv tinfo e = Some (Panic x e') \<and> trace e' = trace e"
  proof (cases "odd (rvLenSlice rv)")
    case True
    then show ?thesis using a main [of "encodeValue n R None"] by simp
  next
    case False
    let ?e1 = "mapStart (rvLenSlice rv div 2) e"
    let ?p = "encodePairs (encodeValue n R None) (kSeqFn (h e) (elem tinfo))
        (mbsPairs (rvElems rv)) ?e1"
    from False a main [of "encodeValue n R None"]
    have b: "andThen ?p (\<lambda>e'. ok (mapEnd e')) = Some (Panic x e')" by simp
    then have c: "?p = Some (Panic x e')"
      by (cases ?p rule: option.exhaust; cases "the ?p") (auto simp: ok_def)
    from encodePairs_callsKept [OF c] obtain ops where "trace e' = trace ?e1 @ ops"
      by (auto simp: callsKept_def)
    then have "trace e' \<noteq> trace e" by (simp add: mapStart_def emit_def)
    with a show ?thesis by simp
  qed
  from main [of ev] arr len nth only show ?thesis by blast
qed

theorem kSliceWMbs_odd_fails_even_pairs_witness:
  "kSliceWMbs (encodeValue (Suc (Suc (Suc 0))) (stdRuntime noMem) None) exPairs
      (exPairsInfos (TNamed ''Pairs'' (TSlice TInterface))) exEncoder =
     Some (Ok (exEncoder\<lparr>trace := [WriteMapStart 2, EncodeString ''a'', EncodeInt 1,
        EncodeString ''b'', EncodeInt 2, WriteMapEnd]\<rparr>)) \<and>
   kSliceWMbs (encodeValue (Suc (Suc (Suc 0))) (stdRuntime noMem) None) exPairsOdd
      (exPairsInfos (TNamed ''Pairs'' (TSlice TInterface))) exEncoder =
     Some (Panic (MalformedFlattenedSequence 3) exEncoder) \<and>
   odd (rvLenSlice exPairsOdd)"
  using kSliceWMbs_odd_fails_even_pairs [of "encodeValue (Suc (Suc (Suc 0))) (stdRuntime noMem) None"
      exPairs "exPairsInfos (TNamed ''Pairs'' (TSlice TInterface))" exEncoder, THEN conjunct1]
    kSliceWMbs_odd_fails_even_pairs [where ev = "encodeValue (Suc (Suc (Suc 0))) (stdRuntime noMem) None"
      and rv = exPairsOdd and tinfo = "exPairsInfos (TNamed ''Pairs'' (TSlice TInterface))"
      and e = exEncoder and n = "Suc (Suc (Suc 0))" and R = "stdRuntime noMem"
      and x = "MalformedFlattenedSequence 3" and e' = exEncoder]
  by (simp add: exPairs_def exPairsOdd_def exPairsInfos_def rvLenSlice_def run_simps
      exEncoder_def encodePairs_def mbsPairs.simps kSeqFn_def)

end
